theory Spec2Isabelle
  imports Main "HOL-Library.Word"
begin

section \<open>Data model of the remote TLS session client\<close>

text \<open>
  The embedding follows \<open>makeAPITLSClient\<close> and the write handling of
  \<open>generateProviderReceipt\<close>, both in src/window-rpc/utils.ts. The session is run
  step by step: each function takes the session and returns its result, or the error
  it throws, with the session as it then is. Steps of the pull loop and of the
  orchestrator that overlap in time are not modelled. Plaintext buffers are lists
  over a type variable \<open>'b\<close>: the client never inspects the bytes it writes, so the
  same definitions run on bytes, on characters and on bytes paired with their
  position.
\<close>

type_synonym byte = "8 word"

text \<open>JavaScript errors as values: a plain \<open>Error\<close>, a \<open>TypeError\<close> raised by the
  runtime, and the \<open>ClientError\<close> of the RPC layer with its status code.\<close>

datatype error =
    Error string
  | TypeError string
  | ClientError nat string

fun message :: "error \<Rightarrow> string" where
  "message (Error m) = m"
| "message (TypeError m) = m"
| "message (ClientError c m) = m"

definition FAILED_PRECONDITION :: nat where
  "FAILED_PRECONDITION = 9"

text \<open>\<open>String.prototype.includes\<close>: the needle occurs as a contiguous run.\<close>

fun startsWith :: "string \<Rightarrow> string \<Rightarrow> bool" where
  "startsWith s [] = True"
| "startsWith [] (c # cs) = False"
| "startsWith (d # ds) (c # cs) = (d = c \<and> startsWith ds cs)"

fun str_includes :: "string \<Rightarrow> string \<Rightarrow> bool" where
  "str_includes [] needle = (needle = [])"
| "str_includes (d # ds) needle = (startsWith (d # ds) needle \<or> str_includes ds needle)"

record TLSPacket =
  header :: "byte list"
  content :: "byte list"

text \<open>The packet context: \<open>{ type: 'plaintext' }\<close> or
  \<open>{ type: 'ciphertext', plaintext, contentType }\<close>.\<close>

datatype 'b TLSPacketContext =
    plaintext_ctx
  | ciphertext_ctx "'b list" string

datatype TranscriptMessageSenderType = CLIENT | SERVER

text \<open>\<open>{ type: 'complete' }\<close> or \<open>{ type: 'zk', redactedPlaintext }\<close>; a packet with
  no \<open>reveal\<close> field carries \<open>None\<close>.\<close>

datatype 'b reveal_decision = Complete | ZK "'b list"

record 'b CompleteTLSPacket =
  packet :: TLSPacket
  ctx :: "'b TLSPacketContext"
  sender :: TranscriptMessageSenderType
  index :: int
  reveal :: "'b reveal_decision option"

record ArraySlice =
  fromIndex :: int
  toIndex :: int

datatype WriteRedactionMode = KeyUpdate | Zk

datatype TLSVersion = TLS1_2 | TLS1_3

text \<open>
  The closure state of one client. \<open>pullFromSessionAbort\<close> is \<open>None\<close> while no
  controller exists and \<open>Some aborted\<close> afterwards. \<open>metadata\<close> holds the negotiated
  version once \<open>onHandshake\<close> has run. The last three fields are the collaborators'
  state: how often the TLS engine rotated its traffic keys, the \<open>tls.end\<close> calls it
  received in order, and the state of the relay.
\<close>

record ('b, 'r) session =
  sessionId :: "string option"
  pullFromSessionAbort :: "bool option"
  metadata :: "TLSVersion option"
  defaultWriteRedactionMode :: WriteRedactionMode
  allPackets :: "'b CompleteTLSPacket list"
  trafficKeyUpdates :: nat
  tlsEnds :: "error option list"
  relay :: 'r

text \<open>
  The TLS engine is an external capability and is taken as a parameter. \<open>fragments\<close>
  gives the pieces in which the engine sends a buffer handed to \<open>tls.write\<close>, one
  record for each piece: it may be none (an empty buffer), one, or several (a buffer
  beyond the engine's record limit). \<open>trailer\<close> is what the engine appends to a piece
  in the \<open>plaintext\<close> of the record's context: the content-type byte under TLS1.3,
  nothing under TLS1.2. \<open>encrypt\<close> gives the record (header and content) the engine
  hands to the write callback for a piece, under the current key generation and
  content type, and \<open>keyUpdateMessage\<close> is the plaintext of its key-update
  handshake message.
\<close>

record 'b TLSEngine =
  fragments :: "'b list \<Rightarrow> 'b list list"
  trailer :: "string \<Rightarrow> 'b list"
  encrypt :: "nat \<Rightarrow> string \<Rightarrow> 'b list \<Rightarrow> TLSPacket"
  keyUpdateMessage :: "'b list"

type_synonym ('b, 'r, 'x) action = "('b, 'r) session \<Rightarrow> (error + 'x) \<times> ('b, 'r) session"

text \<open>Sequencing of two awaited steps: an error of the first is thrown on.\<close>

definition andThen :: "('b, 'r, 'x) action \<Rightarrow> ('x \<Rightarrow> ('b, 'r, 'y) action) \<Rightarrow> ('b, 'r, 'y) action" where
  "andThen m f s = (case m s of (Inl e, s') \<Rightarrow> (Inl e, s') | (Inr x, s') \<Rightarrow> f x s')"

definition skip :: "('b, 'r, unit) action" where
  "skip s = (Inr (), s)"

section \<open>Transcript operations\<close>

text \<open>\<open>!sessionId\<close>: the id is undefined or the empty string.\<close>

definition noSession :: "string option \<Rightarrow> bool" where
  "noSession sid = (case sid of None \<Rightarrow> True | Some v \<Rightarrow> v = [])"

text \<open>\<open>getLastBlock\<close>: the position of the last packet of a sender, scanning from the
  end; \<open>None\<close> is the function's \<open>undefined\<close>.\<close>

fun getLastBlockFrom :: "TranscriptMessageSenderType \<Rightarrow> 'b CompleteTLSPacket list \<Rightarrow> nat \<Rightarrow> nat option" where
  "getLastBlockFrom sd ps 0 = None"
| "getLastBlockFrom sd ps (Suc i) =
     (if sender (ps ! i) = sd then Some i else getLastBlockFrom sd ps i)"

definition getLastBlock :: "TranscriptMessageSenderType \<Rightarrow> 'b CompleteTLSPacket list \<Rightarrow> nat option" where
  "getLastBlock sd ps = getLastBlockFrom sd ps (length ps)"

text \<open>The \<open>write(packet, ctx)\<close> callback given to the TLS engine: push the record to
  the relay and append it with the index of the push response.\<close>

definition write_cb ::
  "('r \<Rightarrow> string \<Rightarrow> TLSPacket \<Rightarrow> (error + int) \<times> 'r) \<Rightarrow> TLSPacket \<Rightarrow> 'b TLSPacketContext
    \<Rightarrow> ('b, 'r, unit) action" where
  "write_cb pushToSession pkt c s =
     (if noSession (sessionId s) then (Inl (Error ''Too early to write''), s)
      else (case pushToSession (relay s) (the (sessionId s)) pkt of
          (Inl e, r') \<Rightarrow> (Inl e, s\<lparr>relay := r'\<rparr>)
        | (Inr idx, r') \<Rightarrow>
            (Inr (), s\<lparr>relay := r',
               allPackets := allPackets s @
                 [\<lparr>packet = pkt, ctx = c, sender = CLIENT, index = idx, reveal = None\<rparr>]\<rparr>)))"

text \<open>The engine sends one piece: it encrypts the piece under the current keys and
  hands the record to the write callback, with the context that carries the piece
  and the engine's trailer as plaintext.\<close>

definition writeEncryptedPacket ::
  "'b TLSEngine \<Rightarrow> ('r \<Rightarrow> string \<Rightarrow> TLSPacket \<Rightarrow> (error + int) \<times> 'r) \<Rightarrow> string \<Rightarrow> 'b list
    \<Rightarrow> ('b, 'r, unit) action" where
  "writeEncryptedPacket eng pushToSession contentType piece s =
     write_cb pushToSession (encrypt eng (trafficKeyUpdates s) contentType piece)
       (ciphertext_ctx (piece @ trailer eng contentType) contentType) s"

text \<open>The pieces are sent in order, each awaited; a write callback that throws ends
  the sending, with the records of the earlier pieces in the transcript.\<close>

fun writePieces ::
  "'b TLSEngine \<Rightarrow> ('r \<Rightarrow> string \<Rightarrow> TLSPacket \<Rightarrow> (error + int) \<times> 'r) \<Rightarrow> string \<Rightarrow> 'b list list
    \<Rightarrow> ('b, 'r, unit) action" where
  "writePieces eng pushToSession contentType [] = skip"
| "writePieces eng pushToSession contentType (piece # rest) =
     andThen (writeEncryptedPacket eng pushToSession contentType piece) (\<lambda>_.
       writePieces eng pushToSession contentType rest)"

text \<open>\<open>tls.write(data)\<close>: the engine sends the pieces of the data as application-data
  records. The client only sees the records arrive at its write callback.\<close>

definition tls_write ::
  "'b TLSEngine \<Rightarrow> ('r \<Rightarrow> string \<Rightarrow> TLSPacket \<Rightarrow> (error + int) \<times> 'r) \<Rightarrow> 'b list \<Rightarrow> ('b, 'r, unit) action" where
  "tls_write eng pushToSession data =
     writePieces eng pushToSession ''APPLICATION_DATA'' (fragments eng data)"

text \<open>\<open>tls.updateTrafficKeys()\<close>: the engine sends its key-update message as a
  handshake record under the old keys, then moves to the next key generation.\<close>

definition tls_updateTrafficKeys ::
  "'b TLSEngine \<Rightarrow> ('r \<Rightarrow> string \<Rightarrow> TLSPacket \<Rightarrow> (error + int) \<times> 'r) \<Rightarrow> ('b, 'r, unit) action" where
  "tls_updateTrafficKeys eng pushToSession =
     andThen (writeEncryptedPacket eng pushToSession ''HANDSHAKE'' (keyUpdateMessage eng))
       (\<lambda>_ s. (Inr (), s\<lparr>trafficKeyUpdates := Suc (trafficKeyUpdates s)\<rparr>))"

text \<open>Assigning or deleting \<open>reveal\<close> on the last packet of a sender; on
  \<open>undefined\<close> the property access throws.\<close>

definition setLastReveal ::
  "TranscriptMessageSenderType \<Rightarrow> 'b reveal_decision option \<Rightarrow> ('b, 'r, unit) action" where
  "setLastReveal sd rv s =
     (case getLastBlock sd (allPackets s) of
        None \<Rightarrow> (Inl (TypeError ''Cannot set properties of undefined''), s)
      | Some i \<Rightarrow>
          (Inr (), s\<lparr>allPackets := (allPackets s)[i := (allPackets s ! i)\<lparr>reveal := rv\<rparr>]\<rparr>))"

definition writeWithReveal ::
  "'b TLSEngine \<Rightarrow> ('r \<Rightarrow> string \<Rightarrow> TLSPacket \<Rightarrow> (error + int) \<times> 'r) \<Rightarrow> 'b list \<Rightarrow> bool
    \<Rightarrow> ('b, 'r, unit) action" where
  "writeWithReveal eng pushToSession data rv =
     andThen (if \<not> rv then tls_updateTrafficKeys eng pushToSession else skip) (\<lambda>_.
     andThen (tls_write eng pushToSession data) (\<lambda>_.
     andThen (setLastReveal CLIENT (if rv then Some Complete else None)) (\<lambda>_.
       if \<not> rv then tls_updateTrafficKeys eng pushToSession else skip)))"

text \<open>\<open>Uint8Array.prototype.slice(start, end)\<close> on integer arguments: a negative
  argument counts from the end, and both are clamped to the length.\<close>

definition relativeIndex :: "int \<Rightarrow> int \<Rightarrow> int" where
  "relativeIndex len i = (if i < 0 then max (len + i) 0 else min i len)"

definition slice :: "'b list \<Rightarrow> int \<Rightarrow> int \<Rightarrow> 'b list" where
  "slice xs start stop =
     (let len = int (length xs);
          k = relativeIndex len start;
          final = relativeIndex len stop
      in take (nat (final - k)) (drop (nat k) xs))"

text \<open>\<open>slice(start)\<close> with the end left out.\<close>

definition sliceFrom :: "'b list \<Rightarrow> int \<Rightarrow> 'b list" where
  "sliceFrom xs start = slice xs start (int (length xs))"

text \<open>The loop of \<open>writeRedactedWithKeyUpdate\<close> over the sections, with
  \<open>currentIndex\<close> as its running variable.\<close>

fun writeSections ::
  "'b TLSEngine \<Rightarrow> ('r \<Rightarrow> string \<Rightarrow> TLSPacket \<Rightarrow> (error + int) \<times> 'r) \<Rightarrow> 'b list \<Rightarrow> int
    \<Rightarrow> ArraySlice list \<Rightarrow> ('b, 'r, unit) action" where
  "writeSections eng pushToSession data currentIndex [] = skip"
| "writeSections eng pushToSession data currentIndex (section # rest) =
     andThen
       (if slice data currentIndex (fromIndex section) \<noteq> []
        then writeWithReveal eng pushToSession (slice data currentIndex (fromIndex section)) True
        else skip) (\<lambda>_.
     andThen
       (writeWithReveal eng pushToSession
          (slice data (fromIndex section) (toIndex section)) False) (\<lambda>_.
       writeSections eng pushToSession data (toIndex section) rest))"

text \<open>\<open>redactedSections?.[redactedSections.length - 1]?.toIndex || 0\<close>\<close>

definition lastBlockStart :: "ArraySlice list \<Rightarrow> int" where
  "lastBlockStart sections = (if sections = [] then 0 else toIndex (last sections))"

definition writeRedactedWithKeyUpdate ::
  "'b TLSEngine \<Rightarrow> ('r \<Rightarrow> string \<Rightarrow> TLSPacket \<Rightarrow> (error + int) \<times> 'r) \<Rightarrow> 'b list
    \<Rightarrow> ArraySlice list \<Rightarrow> ('b, 'r, unit) action" where
  "writeRedactedWithKeyUpdate eng pushToSession data redactedSections =
     andThen (writeSections eng pushToSession data 0 redactedSections) (\<lambda>_.
       if sliceFrom data (lastBlockStart redactedSections) \<noteq> []
       then writeWithReveal eng pushToSession
              (sliceFrom data (lastBlockStart redactedSections)) True
       else skip)"

text \<open>
  Modelled from the spec: \<open>redactSlices\<close> is imported from the repository's utils,
  which are not among the sources. The spec has it blank every RedactedSlice,
  replacing the range \<open>[fromIndex, toIndex)\<close> by filler of the same length; which
  filler byte is used is left open, so it is a parameter.
\<close>

definition inSlice :: "int \<Rightarrow> ArraySlice \<Rightarrow> bool" where
  "inSlice i sl = (fromIndex sl \<le> i \<and> i < toIndex sl)"

definition redactSlices :: "'b \<Rightarrow> 'b list \<Rightarrow> ArraySlice list \<Rightarrow> 'b list" where
  "redactSlices filler buf slices =
     map (\<lambda>i. if list_ex (inSlice (int i)) slices then filler else buf ! i)
       [0..<length buf]"

definition writeRedactedZk ::
  "'b TLSEngine \<Rightarrow> ('r \<Rightarrow> string \<Rightarrow> TLSPacket \<Rightarrow> (error + int) \<times> 'r) \<Rightarrow> 'b \<Rightarrow> 'b list
    \<Rightarrow> ArraySlice list \<Rightarrow> ('b, 'r, unit) action" where
  "writeRedactedZk eng pushToSession filler data redactedSections =
     andThen (tls_write eng pushToSession data) (\<lambda>_.
       setLastReveal CLIENT (Some (ZK (redactSlices filler data redactedSections))))"

definition write_op ::
  "'b TLSEngine \<Rightarrow> ('r \<Rightarrow> string \<Rightarrow> TLSPacket \<Rightarrow> (error + int) \<times> 'r) \<Rightarrow> 'b \<Rightarrow> 'b list
    \<Rightarrow> ArraySlice list \<Rightarrow> ('b, 'r, unit) action" where
  "write_op eng pushToSession filler data redactedSections s =
     (if defaultWriteRedactionMode s = KeyUpdate
      then writeRedactedWithKeyUpdate eng pushToSession data redactedSections s
      else writeRedactedZk eng pushToSession filler data redactedSections s)"

section \<open>Finalize\<close>

text \<open>\<open>PACKET_TYPE.WRAPPED_RECORD\<close> of the TLS library: the record type byte of an
  encrypted record.\<close>

definition WRAPPED_RECORD :: byte where
  "WRAPPED_RECORD = 0x17"

text \<open>
  \<open>isApplicationData\<close>. The version is read from \<open>metadata\<close> only when the content
  type is not application data and the header starts with the wrapped-record byte;
  reading it while \<open>metadata\<close> is still undefined throws.
\<close>

definition isApplicationData :: "TLSVersion option \<Rightarrow> 'b CompleteTLSPacket \<Rightarrow> error + bool" where
  "isApplicationData md p =
     (case ctx p of
        plaintext_ctx \<Rightarrow> Inr False
      | ciphertext_ctx pt ct \<Rightarrow>
          if ct = ''APPLICATION_DATA'' then Inr True
          else if header (packet p) \<noteq> [] \<and> hd (header (packet p)) = WRAPPED_RECORD
          then (case md of
                  None \<Rightarrow> Inl (TypeError ''Cannot read properties of undefined (reading version)'')
                | Some v \<Rightarrow> Inr (v = TLS1_2))
          else Inr False)"

text \<open>\<open>ServerAppDataPacket = { plaintext, index }\<close> as a pair, and the blocks
  \<open>{ block, redactedPlaintext }\<close> that \<open>getBlocksToReveal\<close> answers with, unless it
  answers \<open>'all'\<close>.\<close>

type_synonym 'b ServerAppDataPacket = "'b list \<times> nat"

record 'b SliceWithReveal =
  block :: "'b ServerAppDataPacket"
  redactedPlaintext :: "'b list"

datatype 'b BlocksToReveal = RevealAll | RevealBlocks "'b SliceWithReveal list"

text \<open>The loop collecting \<open>serverBlocks\<close>, with \<open>i\<close> the loop index.\<close>

fun serverBlocksFrom ::
  "TLSVersion option \<Rightarrow> nat \<Rightarrow> 'b CompleteTLSPacket list \<Rightarrow> error + 'b ServerAppDataPacket list" where
  "serverBlocksFrom md i [] = Inr []"
| "serverBlocksFrom md i (b # rest) =
     (case ctx b of
        plaintext_ctx \<Rightarrow> serverBlocksFrom md (Suc i) rest
      | ciphertext_ctx pt ct \<Rightarrow>
          if sender b = SERVER then
            (case isApplicationData md b of
               Inl e \<Rightarrow> Inl e
             | Inr False \<Rightarrow> serverBlocksFrom md (Suc i) rest
             | Inr True \<Rightarrow>
                 (case md of
                    None \<Rightarrow> Inl (TypeError ''Cannot read properties of undefined (reading version)'')
                  | Some v \<Rightarrow>
                      (case serverBlocksFrom md (Suc i) rest of
                         Inl e \<Rightarrow> Inl e
                       | Inr blocks \<Rightarrow>
                           Inr ((if v = TLS1_3 then butlast pt else pt, i) # blocks))))
          else serverBlocksFrom md (Suc i) rest)"

text \<open>The branch for \<open>'all'\<close>: every server packet is revealed completely.\<close>

definition revealAllServer :: "'b CompleteTLSPacket list \<Rightarrow> 'b CompleteTLSPacket list" where
  "revealAllServer ps = map (\<lambda>p. if sender p = SERVER then p\<lparr>reveal := Some Complete\<rparr> else p) ps"

text \<open>The branch for a list of blocks: \<open>allPackets[packet.block.index].reveal = ...\<close>;
  an index outside the transcript hits \<open>undefined\<close> and throws, with the earlier
  assignments already made.\<close>

fun revealBlocks ::
  "'b SliceWithReveal list \<Rightarrow> 'b CompleteTLSPacket list \<Rightarrow> error option \<times> 'b CompleteTLSPacket list" where
  "revealBlocks [] ps = (None, ps)"
| "revealBlocks (b # bs) ps =
     (if snd (block b) < length ps
      then revealBlocks bs
             (ps[snd (block b) := (ps ! snd (block b))\<lparr>reveal := Some (ZK (redactedPlaintext b))\<rparr>])
      else (Some (TypeError ''Cannot set properties of undefined (setting reveal)''), ps))"

text \<open>The loop revealing the client's handshake packets; it breaks at the first
  application-data packet of the client.\<close>

fun revealHandshake ::
  "TLSVersion option \<Rightarrow> WriteRedactionMode \<Rightarrow> 'b CompleteTLSPacket list
    \<Rightarrow> error option \<times> 'b CompleteTLSPacket list" where
  "revealHandshake md mode [] = (None, [])"
| "revealHandshake md mode (p # ps) =
     (if sender p \<noteq> CLIENT then apsnd ((#) p) (revealHandshake md mode ps)
      else (case ctx p of
              plaintext_ctx \<Rightarrow> apsnd ((#) p) (revealHandshake md mode ps)
            | ciphertext_ctx pt ct \<Rightarrow>
                (case isApplicationData md p of
                   Inl e \<Rightarrow> (Some e, p # ps)
                 | Inr True \<Rightarrow> (None, p # ps)
                 | Inr False \<Rightarrow>
                     apsnd ((#) (p\<lparr>reveal := Some (if mode = Zk then ZK pt else Complete)\<rparr>))
                       (revealHandshake md mode ps))))"

definition tls_end :: "error option \<Rightarrow> ('b, 'r) session \<Rightarrow> ('b, 'r) session" where
  "tls_end err s = s\<lparr>tlsEnds := tlsEnds s @ [err]\<rparr>"

text \<open>\<open>pullFromSessionAbort?.abort()\<close>\<close>

definition abortPull :: "('b, 'r) session \<Rightarrow> ('b, 'r) session" where
  "abortPull s = s\<lparr>pullFromSessionAbort := map_option (\<lambda>_. True) (pullFromSessionAbort s)\<rparr>"

text \<open>
  \<open>finish\<close>. Its collaborators are parameters: the optional \<open>redactResponse\<close>
  function; \<open>getBlocksToReveal\<close> and \<open>preparePacketsForReveal\<close>, which are imported from
  the repository's utils and are not among the sources; and the relay's
  \<open>finaliseSession\<close>. A throw leaves the marks made so far in place.
\<close>

definition finish ::
  "('b list \<Rightarrow> ArraySlice list) option
    \<Rightarrow> ('b ServerAppDataPacket list \<Rightarrow> ('b list \<Rightarrow> ArraySlice list) \<Rightarrow> error + 'b BlocksToReveal)
    \<Rightarrow> ('b CompleteTLSPacket list \<Rightarrow> error + 'v)
    \<Rightarrow> ('r \<Rightarrow> string \<Rightarrow> 'v \<Rightarrow> (error + 'a) \<times> 'r)
    \<Rightarrow> ('b, 'r, 'a) action" where
  "finish redactResponse getBlocksToReveal preparePacketsForReveal finaliseSession s =
     (if noSession (sessionId s) then (Inl (Error ''Nothing to cancel''), s)
      else
        (case (case redactResponse of
                 None \<Rightarrow> Inr RevealAll
               | Some f \<Rightarrow>
                   (case serverBlocksFrom (metadata s) 0 (allPackets s) of
                      Inl e \<Rightarrow> Inl e
                    | Inr serverBlocks \<Rightarrow> getBlocksToReveal serverBlocks f)) of
           Inl e \<Rightarrow> (Inl e, s)
         | Inr serverPacketsToReveal \<Rightarrow>
             (case (case serverPacketsToReveal of
                      RevealAll \<Rightarrow> (None, revealAllServer (allPackets s))
                    | RevealBlocks bs \<Rightarrow> revealBlocks bs (allPackets s)) of
                (Some e, ps1) \<Rightarrow> (Inl e, s\<lparr>allPackets := ps1\<rparr>)
              | (None, ps1) \<Rightarrow>
                  (case revealHandshake (metadata s) (defaultWriteRedactionMode s) ps1 of
                     (Some e, ps2) \<Rightarrow> (Inl e, s\<lparr>allPackets := ps2\<rparr>)
                   | (None, ps2) \<Rightarrow>
                       (if metadata s = None
                        then (Inl (TypeError ''Cannot read properties of undefined (reading cipherSuite)''),
                              s\<lparr>allPackets := ps2\<rparr>)
                        else (case preparePacketsForReveal ps2 of
                                Inl e \<Rightarrow> (Inl e, s\<lparr>allPackets := ps2\<rparr>)
                              | Inr rb \<Rightarrow>
                                  (case finaliseSession (relay s) (the (sessionId s)) rb of
                                     (Inl e, r') \<Rightarrow> (Inl e, s\<lparr>allPackets := ps2, relay := r'\<rparr>)
                                   | (Inr result, r') \<Rightarrow>
                                       (Inr result,
                                        abortPull (tls_end None
                                          (s\<lparr>allPackets := ps2, relay := r'\<rparr>))))))))))"

section \<open>Cancel\<close>

definition cancel :: "('r \<Rightarrow> string \<Rightarrow> error option \<times> 'r) \<Rightarrow> ('b, 'r, unit) action" where
  "cancel cancelSession s =
     (if noSession (sessionId s) then (Inl (Error ''Nothing to cancel''), s)
      else (case cancelSession (relay (abortPull s)) (the (sessionId s)) of
              (Some e, r') \<Rightarrow> (Inl e, (abortPull s)\<lparr>relay := r'\<rparr>)
            | (None, r') \<Rightarrow> (Inr (), tls_end None ((abortPull s)\<lparr>relay := r'\<rparr>))))"

section \<open>The pull loop\<close>

text \<open>
  What the TLS engine does when it is handed a record or asked to start the handshake
  is its own business; the model takes it as given with each stream element. The
  engine may reject the record before reading it; otherwise it reports the record to
  \<open>onRead\<close> once, then runs its callbacks in order, and may throw at the end.
\<close>

datatype 'b EngineCallback =
    CbWrite TLSPacket "'b TLSPacketContext"
  | CbHandshake "TLSVersion option"
  | CbApplicationData "'b list"

record 'b EngineReaction =
  rejected :: "error option"
  readCtx :: "'b TLSPacketContext"
  callbacks :: "'b EngineCallback list"
  thrown :: "error option"

datatype PullFromSessionResponse =
  PullFromSessionResponse (pull_message: "TLSPacket option") (pull_index: int)

definition throw :: "error \<Rightarrow> ('b, 'r, 'x) action" where
  "throw e s = (Inl e, s)"

text \<open>\<open>onHandshake\<close>: store the metadata; TLS1.2 has no key update, so the write mode
  becomes zk.\<close>

definition onHandshake :: "TLSVersion option \<Rightarrow> ('b, 'r, unit) action" where
  "onHandshake v s =
     (Inr (), s\<lparr>metadata := v,
                defaultWriteRedactionMode :=
                  (if v = Some TLS1_2 then Zk else defaultWriteRedactionMode s)\<rparr>)"

definition onRead :: "TLSPacket \<Rightarrow> 'b TLSPacketContext \<Rightarrow> ('b, 'r, unit) action" where
  "onRead pkt c s =
     (Inr (), s\<lparr>allPackets := allPackets s @
        [\<lparr>packet = pkt, ctx = c, sender = SERVER, index = - 1, reveal = None\<rparr>]\<rparr>)"

fun runCallbacks ::
  "('r \<Rightarrow> string \<Rightarrow> TLSPacket \<Rightarrow> (error + int) \<times> 'r) \<Rightarrow> 'b EngineCallback list
    \<Rightarrow> ('b, 'r, unit) action" where
  "runCallbacks pushToSession [] = skip"
| "runCallbacks pushToSession (CbWrite pkt c # cbs) =
     andThen (write_cb pushToSession pkt c) (\<lambda>_. runCallbacks pushToSession cbs)"
| "runCallbacks pushToSession (CbHandshake v # cbs) =
     andThen (onHandshake v) (\<lambda>_. runCallbacks pushToSession cbs)"
| "runCallbacks pushToSession (CbApplicationData d # cbs) = runCallbacks pushToSession cbs"

definition throwIf :: "error option \<Rightarrow> ('b, 'r, unit) action" where
  "throwIf eo = (case eo of None \<Rightarrow> skip | Some e \<Rightarrow> throw e)"

definition tls_startHandshake ::
  "('r \<Rightarrow> string \<Rightarrow> TLSPacket \<Rightarrow> (error + int) \<times> 'r) \<Rightarrow> 'b EngineReaction \<Rightarrow> ('b, 'r, unit) action" where
  "tls_startHandshake pushToSession rx =
     andThen (runCallbacks pushToSession (callbacks rx)) (\<lambda>_. throwIf (thrown rx))"

text \<open>
  \<open>onReady\<close> calls \<open>tls.startHandshake\<close> and drops the promise it returns: what the
  handshake start appends is there, but an error it ends with is not raised in the
  loop.
\<close>

definition onReady ::
  "('r \<Rightarrow> string \<Rightarrow> TLSPacket \<Rightarrow> (error + int) \<times> 'r) \<Rightarrow> 'b EngineReaction \<Rightarrow> ('b, 'r, unit) action" where
  "onReady pushToSession rx s = (Inr (), snd (tls_startHandshake pushToSession rx s))"

definition tls_handleReceivedPacket ::
  "('r \<Rightarrow> string \<Rightarrow> TLSPacket \<Rightarrow> (error + int) \<times> 'r) \<Rightarrow> TLSPacket \<Rightarrow> 'b EngineReaction
    \<Rightarrow> ('b, 'r, unit) action" where
  "tls_handleReceivedPacket pushToSession pkt rx =
     andThen (throwIf (rejected rx)) (\<lambda>_.
     andThen (onRead pkt (readCtx rx)) (\<lambda>_.
     andThen (runCallbacks pushToSession (callbacks rx)) (\<lambda>_. throwIf (thrown rx))))"

text \<open>\<open>block!.index = index\<close> on the last server block.\<close>

definition setLastIndex :: "TranscriptMessageSenderType \<Rightarrow> int \<Rightarrow> ('b, 'r, unit) action" where
  "setLastIndex sd idx s =
     (case getLastBlock sd (allPackets s) of
        None \<Rightarrow> (Inl (TypeError ''Cannot set properties of undefined (setting index)''), s)
      | Some i \<Rightarrow>
          (Inr (), s\<lparr>allPackets := (allPackets s)[i := (allPackets s ! i)\<lparr>index := idx\<rparr>]\<rparr>))"

text \<open>\<open>!message?.recordHeader?.length\<close>\<close>

definition readyMarker :: "PullFromSessionResponse \<Rightarrow> bool" where
  "readyMarker res = (case pull_message res of None \<Rightarrow> True | Some m \<Rightarrow> header m = [])"

text \<open>
  The body of the \<open>try\<close>: the \<open>for await\<close> loop over the elements the stream
  yields, each with the engine's reaction to it, and then the way the stream ends:
  normally (\<open>None\<close>) or by raising an error.
\<close>

fun pullLoop ::
  "('r \<Rightarrow> string \<Rightarrow> TLSPacket \<Rightarrow> (error + int) \<times> 'r)
    \<Rightarrow> (PullFromSessionResponse \<times> 'b EngineReaction) list \<Rightarrow> error option
    \<Rightarrow> ('b, 'r, unit) action" where
  "pullLoop pushToSession [] ending = throwIf ending"
| "pullLoop pushToSession ((res, rx) # rest) ending =
     (if readyMarker res
      then andThen (onReady pushToSession rx) (\<lambda>_. pullLoop pushToSession rest ending)
      else andThen (tls_handleReceivedPacket pushToSession (the (pull_message res)) rx) (\<lambda>_.
           andThen (setLastIndex SERVER (pull_index res)) (\<lambda>_.
             pullLoop pushToSession rest ending)))"

definition listenToDataFromServer ::
  "('r \<Rightarrow> string \<Rightarrow> TLSPacket \<Rightarrow> (error + int) \<times> 'r)
    \<Rightarrow> (PullFromSessionResponse \<times> 'b EngineReaction) list \<Rightarrow> error option
    \<Rightarrow> ('b, 'r, unit) action" where
  "listenToDataFromServer pushToSession result ending s =
     (case pullLoop pushToSession result ending s of
        (Inl error, s1) \<Rightarrow>
          if \<not> str_includes (message error) ''aborted''
          then (Inl error, tls_end (Some error) s1)
          else (Inr (), tls_end None s1)
      | (Inr u, s1) \<Rightarrow> (Inr (), tls_end None s1))"

section \<open>The orchestrator's request write\<close>

text \<open>\<open>waitForAllData\<close>: a promise that is still pending, was resolved, or was rejected
  with the error handed to \<open>endedHttpRequest\<close>.\<close>

datatype promise = Pending | Resolved | Rejected error

text \<open>
  \<open>generateProviderReceipt\<close> from the request write on (the connection is up). The
  steps after \<open>await waitForAllData\<close> are the continuation \<open>rest\<close>. A pending promise
  never lets the function return: \<open>None\<close>.
\<close>

definition toleratedWriteError :: "error \<Rightarrow> bool" where
  "toleratedWriteError err =
     (case err of
        ClientError c m \<Rightarrow> c = FAILED_PRECONDITION \<and> str_includes m ''session is closed''
      | _ \<Rightarrow> False)"

definition awaitAllData ::
  "promise \<Rightarrow> ('b, 'r, 'x) action \<Rightarrow> ('b, 'r) session \<Rightarrow> ((error + 'x) \<times> ('b, 'r) session) option" where
  "awaitAllData waitForAllData rest s =
     (case waitForAllData of
        Pending \<Rightarrow> None
      | Resolved \<Rightarrow> Some (rest s)
      | Rejected e \<Rightarrow> Some (Inl e, s))"

definition generateProviderReceipt ::
  "'b TLSEngine \<Rightarrow> ('r \<Rightarrow> string \<Rightarrow> TLSPacket \<Rightarrow> (error + int) \<times> 'r) \<Rightarrow> 'b \<Rightarrow> 'b list
    \<Rightarrow> ArraySlice list \<Rightarrow> promise \<Rightarrow> ('b, 'r, 'x) action
    \<Rightarrow> ('b, 'r) session \<Rightarrow> ((error + 'x) \<times> ('b, 'r) session) option" where
  "generateProviderReceipt eng pushToSession filler reqData redactions waitForAllData rest s =
     (case write_op eng pushToSession filler reqData redactions s of
        (Inl err, s1) \<Rightarrow>
          if toleratedWriteError err then awaitAllData waitForAllData rest s1
          else Some (Inl err, s1)
      | (Inr u, s1) \<Rightarrow> awaitAllData waitForAllData rest s1)"

section \<open>Notions used in the statements\<close>


text \<open>
  The plaintext a context carries, the mark the handshake loop puts on a packet, and
  a client packet that \<open>isApplicationData\<close> accepts.
\<close>

definition ctxPlaintext :: "'b TLSPacketContext \<Rightarrow> 'b list" where
  "ctxPlaintext c = (case c of plaintext_ctx \<Rightarrow> [] | ciphertext_ctx pt ct \<Rightarrow> pt)"

definition handshakeMark :: "WriteRedactionMode \<Rightarrow> 'b CompleteTLSPacket \<Rightarrow> 'b CompleteTLSPacket" where
  "handshakeMark mode p =
     (case ctx p of
        plaintext_ctx \<Rightarrow> p
      | ciphertext_ctx pt ct \<Rightarrow> p\<lparr>reveal := Some (if mode = Zk then ZK pt else Complete)\<rparr>)"

definition clientAppData :: "TLSVersion option \<Rightarrow> 'b CompleteTLSPacket \<Rightarrow> bool" where
  "clientAppData md p \<longleftrightarrow> sender p = CLIENT \<and> isApplicationData md p = Inr True"


definition holdsSecret :: "ArraySlice list \<Rightarrow> (nat option \<times> 'c) CompleteTLSPacket \<Rightarrow> bool" where
  "holdsSecret sections p =
     list_ex (\<lambda>x. case fst x of None \<Rightarrow> False | Some i \<Rightarrow> list_ex (inSlice (int i)) sections)
       (ctxPlaintext (ctx p))"

definition applicationDataRecord :: "'b CompleteTLSPacket \<Rightarrow> bool" where
  "applicationDataRecord p =
     (case ctx p of plaintext_ctx \<Rightarrow> False | ciphertext_ctx pt ct \<Rightarrow> ct = ''APPLICATION_DATA'')"




text \<open>
  A record the write callback appends for a piece: a client record without a reveal
  decision whose context carries the piece and the trailer.
\<close>

definition engineRecord :: "'b TLSEngine \<Rightarrow> string \<Rightarrow> 'b list \<Rightarrow> 'b CompleteTLSPacket \<Rightarrow> bool" where
  "engineRecord eng contentType piece p \<longleftrightarrow>
     sender p = CLIENT \<and> reveal p = None
     \<and> ctx p = ciphertext_ctx (piece @ trailer eng contentType) contentType"





text \<open>
  The indices of one sender's records, in transcript order, and the indices the pull
  stream carries for the records it delivers (the ready markers left out).
\<close>

definition indicesOf :: "TranscriptMessageSenderType \<Rightarrow> 'b CompleteTLSPacket list \<Rightarrow> int list" where
  "indicesOf sd ps = map index (filter (\<lambda>p. sender p = sd) ps)"

definition streamIndices :: "(PullFromSessionResponse \<times> 'x) list \<Rightarrow> int list" where
  "streamIndices result = map (\<lambda>x. pull_index (fst x)) (filter (\<lambda>x. \<not> readyMarker (fst x)) result)"

text \<open>
  The assumption on the relay, which is not part of the client: with a bound \<open>hi\<close> on
  the indices it has assigned so far, every index it assigns in a push response lies
  above the bound and moves the bound at least up to itself, and no call lowers the
  bound.
\<close>

definition relayIncreasing ::
  "('r \<Rightarrow> int) \<Rightarrow> ('r \<Rightarrow> string \<Rightarrow> TLSPacket \<Rightarrow> (error + int) \<times> 'r) \<Rightarrow> bool" where
  "relayIncreasing hi pushToSession \<longleftrightarrow>
     (\<forall>r sid pkt. case pushToSession r sid pkt of
                     (Inl e, r') \<Rightarrow> hi r \<le> hi r'
                   | (Inr idx, r') \<Rightarrow> hi r < idx \<and> idx \<le> hi r')"

text \<open>
  The invariant of the transcript: per sender the indices increase strictly, and the
  client's indices lie within the relay's bound. \<open>growth\<close> relates two sessions when
  the second transcript is the first with records appended, the appended server
  records carrying the indices \<open>srv\<close> and the appended client records carrying
  increasing indices above the first session's bound. \<open>unrevealed\<close> is the
  transcript without its reveal decisions, which are put on records after they were
  appended; \<open>clientGrowth\<close> is growth by client records only, reveal decisions apart.
\<close>

definition transcriptOrdered :: "('r \<Rightarrow> int) \<Rightarrow> ('b, 'r) session \<Rightarrow> bool" where
  "transcriptOrdered hi s \<longleftrightarrow>
     sorted_wrt (<) (indicesOf CLIENT (allPackets s))
     \<and> sorted_wrt (<) (indicesOf SERVER (allPackets s))
     \<and> (\<forall>i\<in>set (indicesOf CLIENT (allPackets s)). i \<le> hi (relay s))"

definition growth :: "('r \<Rightarrow> int) \<Rightarrow> int list \<Rightarrow> ('b, 'r) session \<Rightarrow> ('b, 'r) session \<Rightarrow> bool" where
  "growth hi srv s s' \<longleftrightarrow>
     hi (relay s) \<le> hi (relay s')
     \<and> (\<exists>news. allPackets s' = allPackets s @ news
           \<and> indicesOf SERVER news = srv
           \<and> sorted_wrt (<) (indicesOf CLIENT news)
           \<and> (\<forall>i\<in>set (indicesOf CLIENT news). hi (relay s) < i \<and> i \<le> hi (relay s')))"

definition unrevealed :: "'b CompleteTLSPacket list \<Rightarrow> 'b CompleteTLSPacket list" where
  "unrevealed ps = map (\<lambda>p. p\<lparr>reveal := None\<rparr>) ps"

definition clientGrowth :: "('r \<Rightarrow> int) \<Rightarrow> ('b, 'r) session \<Rightarrow> ('b, 'r) session \<Rightarrow> bool" where
  "clientGrowth hi s s' \<longleftrightarrow>
     hi (relay s) \<le> hi (relay s')
     \<and> (\<exists>news. unrevealed (allPackets s') = unrevealed (allPackets s) @ news
           \<and> (\<forall>p\<in>set news. sender p = CLIENT)
           \<and> sorted_wrt (<) (indicesOf CLIENT news)
           \<and> (\<forall>i\<in>set (indicesOf CLIENT news). hi (relay s) < i \<and> i \<le> hi (relay s')))"

subsection \<open>Example sessions and collaborators\<close>

text \<open>
  Concrete inputs for the witnesses and counterexamples. \<open>chunksOf n\<close> cuts a buffer
  into pieces of at most \<open>n\<close> bytes, none for the empty buffer. The engines send
  records of at most 16380 bytes of data with the wrapped-record header: \<open>demoEngine\<close>
  adds no trailer, \<open>tls13Engine\<close> adds the content-type byte and has a key-update
  message, and \<open>taggedEngine\<close> is the same over bytes paired with their positions.
  Then: a relay that numbers the pushes it accepts, with the bound that belongs to
  it; a relay that rejects every push because the session is closed; a relay that
  accepts \<open>cancelSession\<close> once; a session after the handshake with an empty transcript,
  the same in zk mode, and one that was never initialised.
\<close>

function chunksOf :: "nat \<Rightarrow> 'b list \<Rightarrow> 'b list list" where
  "chunksOf n xs =
     (if xs = [] then [] else if n = 0 then [xs] else take n xs # chunksOf n (drop n xs))"
  by pat_completeness auto

termination chunksOf
  by (relation "measure (\<lambda>(n, xs). length xs)") auto

declare chunksOf.simps [simp del]

definition demoEngine :: "'b TLSEngine" where
  "demoEngine = \<lparr>fragments = chunksOf 16380, trailer = (\<lambda>ct. []),
                 encrypt = (\<lambda>k ct pt. \<lparr>header = [23, 3, 3], content = replicate (length pt) (of_nat k)\<rparr>),
                 keyUpdateMessage = []\<rparr>"

definition tls13Engine :: "char TLSEngine" where
  "tls13Engine = demoEngine\<lparr>
     trailer := (\<lambda>ct. if ct = ''APPLICATION_DATA'' then [CHR 0x17] else [CHR 0x16]),
     keyUpdateMessage := [CHR 0x18, CHR 0x00, CHR 0x00, CHR 0x01, CHR 0x00]\<rparr>"

definition taggedEngine :: "(nat option \<times> char) TLSEngine" where
  "taggedEngine = demoEngine\<lparr>
     trailer := (\<lambda>ct. if ct = ''APPLICATION_DATA'' then [(None, CHR 0x17)] else [(None, CHR 0x16)]),
     keyUpdateMessage := map (Pair None) [CHR 0x18, CHR 0x00, CHR 0x00, CHR 0x01, CHR 0x00]\<rparr>"

definition countingRelay :: "nat \<Rightarrow> string \<Rightarrow> TLSPacket \<Rightarrow> (error + int) \<times> nat" where
  "countingRelay r sid pkt = (Inr (int r), Suc r)"

definition counterBound :: "nat \<Rightarrow> int" where
  "counterBound r = int r - 1"

definition closedRelay :: "nat \<Rightarrow> string \<Rightarrow> TLSPacket \<Rightarrow> (error + int) \<times> nat" where
  "closedRelay r sid pkt = (Inl (ClientError 9 ''session is closed''), r)"

definition cancelOnceRelay :: "nat \<Rightarrow> string \<Rightarrow> error option \<times> nat" where
  "cancelOnceRelay r sid =
     (if r = 0 then (None, 1) else (Some (ClientError 5 ''session not found''), r))"

definition demoSession :: "('b, nat) session" where
  "demoSession = \<lparr>sessionId = Some ''s1'', pullFromSessionAbort = Some False,
     metadata = Some TLS1_3, defaultWriteRedactionMode = KeyUpdate, allPackets = [],
     trafficKeyUpdates = 0, tlsEnds = [], relay = 0\<rparr>"

definition zkSession :: "('b, nat) session" where
  "zkSession = demoSession\<lparr>defaultWriteRedactionMode := Zk\<rparr>"

definition freshSession :: "('b, nat) session" where
  "freshSession = demoSession\<lparr>sessionId := None, pullFromSessionAbort := None, metadata := None\<rparr>"

text \<open>
  The request of Scenario B; the slice \<open>[32, 41)\<close> covers \<open>secret123\<close>.
\<close>

definition scenarioInput :: string where
  "scenarioInput = ''GET /x HTTP/1.1'' @ [CHR 0x0D, CHR 0x0A] @ ''Authorization: secret123''
     @ [CHR 0x0D, CHR 0x0A, CHR 0x0D, CHR 0x0A]"

text \<open>
  A TLS1.3 session before \<open>finish\<close>: the two hello records in the clear, the encrypted
  handshake, a disclosed request span, a key update, a secret span, and the response,
  whose plaintext ends with the content-type byte. The stream below delivers the
  ready marker and two server records, the engine answering with its hello and its
  finished message.
\<close>

definition handshakeSession :: "(char, nat) session" where
  "handshakeSession =
     \<lparr>sessionId = Some ''s1'', pullFromSessionAbort = Some False, metadata = Some TLS1_3,
      defaultWriteRedactionMode = KeyUpdate,
      allPackets =
        [\<lparr>packet = \<lparr>header = [22, 3, 3], content = [1]\<rparr>, ctx = plaintext_ctx,
           sender = CLIENT, index = 0, reveal = None\<rparr>,
         \<lparr>packet = \<lparr>header = [22, 3, 3], content = [2]\<rparr>, ctx = plaintext_ctx,
           sender = SERVER, index = 1, reveal = None\<rparr>,
         \<lparr>packet = \<lparr>header = [23, 3, 3], content = [3]\<rparr>,
           ctx = ciphertext_ctx ''certificate'' ''HANDSHAKE'',
           sender = SERVER, index = 2, reveal = None\<rparr>,
         \<lparr>packet = \<lparr>header = [23, 3, 3], content = [4]\<rparr>,
           ctx = ciphertext_ctx ''finished'' ''HANDSHAKE'',
           sender = CLIENT, index = 3, reveal = None\<rparr>,
         \<lparr>packet = \<lparr>header = [23, 3, 3], content = [5]\<rparr>,
           ctx = ciphertext_ctx ''GET /'' ''APPLICATION_DATA'',
           sender = CLIENT, index = 4, reveal = Some Complete\<rparr>,
         \<lparr>packet = \<lparr>header = [23, 3, 3], content = [6]\<rparr>,
           ctx = ciphertext_ctx ''keyupdate'' ''HANDSHAKE'',
           sender = CLIENT, index = 5, reveal = None\<rparr>,
         \<lparr>packet = \<lparr>header = [23, 3, 3], content = [7]\<rparr>,
           ctx = ciphertext_ctx ''secret'' ''APPLICATION_DATA'',
           sender = CLIENT, index = 6, reveal = None\<rparr>,
         \<lparr>packet = \<lparr>header = [23, 3, 3], content = [8]\<rparr>,
           ctx = ciphertext_ctx ''200 OK!'' ''APPLICATION_DATA'',
           sender = SERVER, index = 7, reveal = None\<rparr>],
      trafficKeyUpdates = 1, tlsEnds = [], relay = 8\<rparr>"

definition demoStream :: "(PullFromSessionResponse \<times> char EngineReaction) list" where
  "demoStream =
     [(PullFromSessionResponse None 0,
       \<lparr>rejected = None, readCtx = plaintext_ctx,
        callbacks = [CbWrite \<lparr>header = [22, 3, 3], content = [1]\<rparr> plaintext_ctx],
        thrown = None\<rparr>),
      (PullFromSessionResponse (Some \<lparr>header = [22, 3, 3], content = [2]\<rparr>) 1,
       \<lparr>rejected = None, readCtx = plaintext_ctx, callbacks = [], thrown = None\<rparr>),
      (PullFromSessionResponse (Some \<lparr>header = [23, 3, 3], content = [3]\<rparr>) 2,
       \<lparr>rejected = None, readCtx = ciphertext_ctx ''finished'' ''HANDSHAKE'',
        callbacks = [CbWrite \<lparr>header = [23, 3, 3], content = [4]\<rparr>
                       (ciphertext_ctx ''finished'' ''HANDSHAKE''),
                     CbHandshake (Some TLS1_3)],
        thrown = None\<rparr>)]"

text \<open>
  Collaborators of \<open>finish\<close> for the examples: a redaction function that finds
  nothing, a \<open>getBlocksToReveal\<close> that hands back every block it was given and one that
  answers \<open>'all'\<close>, a preparer that passes the packets on, and a relay that accepts the
  reveal blocks.
\<close>

definition noSlices :: "'b list \<Rightarrow> ArraySlice list" where
  "noSlices d = []"

definition revealGivenBlocks ::
  "'b ServerAppDataPacket list \<Rightarrow> ('b list \<Rightarrow> ArraySlice list) \<Rightarrow> error + 'b BlocksToReveal" where
  "revealGivenBlocks blocks f =
     Inr (RevealBlocks (map (\<lambda>b. \<lparr>block = b, redactedPlaintext = fst b\<rparr>) blocks))"

definition answerAll ::
  "'b ServerAppDataPacket list \<Rightarrow> ('b list \<Rightarrow> ArraySlice list) \<Rightarrow> error + 'b BlocksToReveal" where
  "answerAll blocks f = Inr RevealAll"

definition prepareAsIs :: "'b CompleteTLSPacket list \<Rightarrow> error + 'b CompleteTLSPacket list" where
  "prepareAsIs ps = Inr ps"

definition acceptFinalise :: "nat \<Rightarrow> string \<Rightarrow> 'v \<Rightarrow> (error + unit) \<times> nat" where
  "acceptFinalise r sid rb = (Inr (), r)"

definition finishedSession :: "(char, nat) session" where
  "finishedSession =
     snd (finish (Some noSlices) revealGivenBlocks prepareAsIs acceptFinalise handshakeSession)"




definition zkHelloSession :: "(char, nat) session" where
  "zkHelloSession = zkSession\<lparr>
     allPackets := [\<lparr>packet = \<lparr>header = [22, 3, 3], content = [1]\<rparr>, ctx = plaintext_ctx,
                     sender = CLIENT, index = 0, reveal = None\<rparr>],
     relay := 1\<rparr>"

definition serverSession :: "(char, nat) session" where
  "serverSession = demoSession\<lparr>
     allPackets := [\<lparr>packet = \<lparr>header = [22, 3, 3], content = [2]\<rparr>, ctx = plaintext_ctx,
                     sender = SERVER, index = 5, reveal = None\<rparr>],
     relay := 6\<rparr>"

definition throwingStream :: "(PullFromSessionResponse \<times> char EngineReaction) list" where
  "throwingStream =
     [(PullFromSessionResponse (Some \<lparr>header = [23, 3, 3], content = [9]\<rparr>) 7,
       \<lparr>rejected = None, readCtx = ciphertext_ctx ''alert'' ''ALERT'', callbacks = [],
        thrown = Some (Error ''received fatal alert'')\<rparr>)]"

section \<open>Slices and the last block\<close>

lemma getLastBlockFrom_append:
  "n \<le> length ps \<Longrightarrow> getLastBlockFrom sd (ps @ qs) n = getLastBlockFrom sd ps n"
  by (induction n) (simp_all add: nth_append)

lemma getLastBlock_snoc:
  "getLastBlock sd (ps @ [p]) = (if sender p = sd then Some (length ps) else getLastBlock sd ps)"
  by (simp add: getLastBlock_def getLastBlockFrom_append)



lemma sliceFrom_0: "sliceFrom xs 0 = xs"
  by (simp add: sliceFrom_def slice_def relativeIndex_def)

lemma andThen_Inr:
  "andThen m f s = (Inr y, s') \<longleftrightarrow> (\<exists>x s1. m s = (Inr x, s1) \<and> f x s1 = (Inr y, s'))"
  by (auto simp: andThen_def split: prod.splits sum.splits)




lemma startsWith_iff: "startsWith s n \<longleftrightarrow> (\<exists>q. s = n @ q)"
  by (induction s n rule: startsWith.induct) auto

lemma str_includes_iff: "str_includes s n \<longleftrightarrow> (\<exists>p q. s = p @ n @ q)"
proof (induction s)
  case Nil
  then show ?case by auto
next
  case (Cons d ds)
  show ?case
  proof
    assume "str_includes (d # ds) n"
    then consider "startsWith (d # ds) n" | "str_includes ds n" by auto
    then show "\<exists>p q. d # ds = p @ n @ q"
    proof cases
      case 1
      then obtain q where "d # ds = [] @ n @ q" by (auto simp: startsWith_iff)
      then show ?thesis by blast
    next
      case 2
      with Cons.IH obtain p q where "ds = p @ n @ q" by blast
      then have "d # ds = (d # p) @ n @ q" by simp
      then show ?thesis by blast
    qed
  next
    assume "\<exists>p q. d # ds = p @ n @ q"
    then obtain p q where pq: "d # ds = p @ n @ q" by blast
    show "str_includes (d # ds) n"
    proof (cases p)
      case Nil
      with pq have "startsWith (d # ds) n" by (simp add: startsWith_iff)
      then show ?thesis by simp
    next
      case (Cons a p')
      with pq have "ds = p' @ n @ q" by simp
      with Cons.IH show ?thesis by auto
    qed
  qed
qed

section \<open>The example engines\<close>

lemma chunksOf_Nil [simp]: "chunksOf n [] = []"
  by (simp add: chunksOf.simps)

lemma chunksOf_step:
  "xs \<noteq> [] \<Longrightarrow> 0 < n \<Longrightarrow> chunksOf n xs = take n xs # chunksOf n (drop n xs)"
  by (subst chunksOf.simps) simp

lemma chunksOf_short: "xs \<noteq> [] \<Longrightarrow> length xs \<le> n \<Longrightarrow> chunksOf n xs = [xs]"
  by (subst chunksOf.simps) simp


lemma demoEngine_fields [simp]:
  "fragments demoEngine = chunksOf 16380"
  "trailer demoEngine = (\<lambda>ct. [])"
  "keyUpdateMessage demoEngine = []"
  "encrypt demoEngine k ct pt = \<lparr>header = [23, 3, 3], content = replicate (length pt) (of_nat k)\<rparr>"
  by (simp_all add: demoEngine_def)

lemma taggedEngine_fields [simp]:
  "fragments taggedEngine = chunksOf 16380"
  "trailer taggedEngine = (\<lambda>ct. if ct = ''APPLICATION_DATA'' then [(None, CHR 0x17)] else [(None, CHR 0x16)])"
  "keyUpdateMessage taggedEngine = map (Pair None) [CHR 0x18, CHR 0x00, CHR 0x00, CHR 0x01, CHR 0x00]"
  "encrypt taggedEngine k ct pt = \<lparr>header = [23, 3, 3], content = replicate (length pt) (of_nat k)\<rparr>"
  by (simp_all add: taggedEngine_def demoEngine_def)



lemma tls13Engine_fields [simp]:
  "fragments tls13Engine = chunksOf 16380"
  "trailer tls13Engine = (\<lambda>ct. if ct = ''APPLICATION_DATA'' then [CHR 0x17] else [CHR 0x16])"
  "keyUpdateMessage tls13Engine = [CHR 0x18, CHR 0x00, CHR 0x00, CHR 0x01, CHR 0x00]"
  "encrypt tls13Engine k ct pt = \<lparr>header = [23, 3, 3], content = replicate (length pt) (of_nat k)\<rparr>"
  by (simp_all add: tls13Engine_def demoEngine_def)

lemma long_chunks:
  "chunksOf 16380 (replicate 20000 c) = [replicate 16380 c, replicate 3620 c]"
  by (simp add: chunksOf_step chunksOf_short)




lemmas write_eval2 =
  write_op_def writeRedactedWithKeyUpdate_def writeRedactedZk_def writeWithReveal_def tls_write_def
  tls_updateTrafficKeys_def writeEncryptedPacket_def write_cb_def setLastReveal_def getLastBlock_def
  andThen_def skip_def lastBlockStart_def noSession_def countingRelay_def chunksOf_short

section \<open>What a write appends\<close>

lemma andThen_cases:
  assumes "andThen m f s = (r, s')"
  obtains (fail) e where "m s = (Inl e, s')" "r = Inl e"
        | (cont) x s1 where "m s = (Inr x, s1)" "f x s1 = (r, s')"
  using assms by (auto simp: andThen_def split: prod.splits sum.splits)

lemma writeEncryptedPacket_any:
  assumes "writeEncryptedPacket eng pushToSession ct piece s = (r, s')"
  shows "trafficKeyUpdates s' = trafficKeyUpdates s"
    and "(\<exists>e. r = Inl e) \<and> allPackets s' = allPackets s
         \<or> r = Inr () \<and> (\<exists>p. allPackets s' = allPackets s @ [p] \<and> engineRecord eng ct piece p)"
  using assms
  by (auto simp: writeEncryptedPacket_def write_cb_def engineRecord_def
      split: if_splits prod.splits sum.splits)

lemma writePieces_any:
  assumes "writePieces eng pushToSession ct ps s = (r, s')"
  shows "\<exists>news. allPackets s' = allPackets s @ news
           \<and> length news \<le> length ps
           \<and> list_all2 (engineRecord eng ct) (take (length news) ps) news
           \<and> (r = Inr () \<longrightarrow> length news = length ps)
           \<and> trafficKeyUpdates s' = trafficKeyUpdates s"
  using assms
proof (induction ps arbitrary: s)
  case Nil
  then show ?case by (auto simp: skip_def)
next
  case (Cons piece rest)
  from Cons.prems have
    "andThen (writeEncryptedPacket eng pushToSession ct piece)
       (\<lambda>_. writePieces eng pushToSession ct rest) s = (r, s')" by simp
  then show ?case
  proof (cases rule: andThen_cases)
    case (fail e)
    from writeEncryptedPacket_any [OF fail(1)] fail(2) show ?thesis by auto
  next
    case (cont x s1)
    from writeEncryptedPacket_any [OF cont(1)] obtain p where
      k: "trafficKeyUpdates s1 = trafficKeyUpdates s"
      and p: "allPackets s1 = allPackets s @ [p]" "engineRecord eng ct piece p"
      by auto
    from Cons.IH [OF cont(2)] obtain news where
      n: "allPackets s' = allPackets s1 @ news" "length news \<le> length rest"
        "list_all2 (engineRecord eng ct) (take (length news) rest) news"
        "r = Inr () \<longrightarrow> length news = length rest"
        "trafficKeyUpdates s' = trafficKeyUpdates s1"
      by blast
    show ?thesis
      by (intro exI [of _ "p # news"]) (use k p n in simp)
  qed
qed

lemma engineRecords_facts:
  assumes "list_all2 (engineRecord eng ct) fs news"
  shows "map ctx news = map (\<lambda>f. ciphertext_ctx (f @ trailer eng ct) ct) fs"
    and "\<forall>p\<in>set news. sender p = CLIENT \<and> reveal p = None"
  using assms by (induction fs news rule: list_all2_induct) (auto simp: engineRecord_def)


lemma tls_write_any:
  assumes "tls_write eng pushToSession d s = (r, s')"
  shows "\<exists>news. allPackets s' = allPackets s @ news
           \<and> length news \<le> length (fragments eng d)
           \<and> list_all2 (engineRecord eng ''APPLICATION_DATA'') (take (length news) (fragments eng d)) news
           \<and> (r = Inr () \<longrightarrow> length news = length (fragments eng d))
           \<and> trafficKeyUpdates s' = trafficKeyUpdates s"
  using assms unfolding tls_write_def by (rule writePieces_any)


lemma setLastReveal_last:
  assumes "allPackets s = ps @ [p]" and "sender p = CLIENT"
  shows "setLastReveal CLIENT rv s = (Inr (), s\<lparr>allPackets := ps @ [p\<lparr>reveal := rv\<rparr>]\<rparr>)"
  using assms by (simp add: setLastReveal_def getLastBlock_snoc)

text \<open>A write of a buffer the engine sends in at least one piece, followed by the
  mark on the last client record: the records of the pieces, the last one marked.\<close>

lemma tls_write_then_mark:
  assumes "andThen (tls_write eng pushToSession d) (\<lambda>_. setLastReveal CLIENT rv) s = (r, s')"
    and "fragments eng d \<noteq> []"
  shows "trafficKeyUpdates s' = trafficKeyUpdates s
     \<and> (\<exists>news. list_all2 (engineRecord eng ''APPLICATION_DATA'') (take (length news) (fragments eng d)) news
          \<and> length news \<le> length (fragments eng d)
          \<and> ((\<exists>e. r = Inl e) \<and> allPackets s' = allPackets s @ news
             \<or> r = Inr () \<and> length news = length (fragments eng d)
               \<and> allPackets s' = allPackets s @ butlast news @ [(last news)\<lparr>reveal := rv\<rparr>]))"
  using assms(1)
proof (cases rule: andThen_cases)
  case (fail e)
  from tls_write_any [OF fail(1)] fail(2) show ?thesis by auto
next
  case (cont x s1)
  from tls_write_any [OF cont(1)] obtain news where
    n: "allPackets s1 = allPackets s @ news"
      "list_all2 (engineRecord eng ''APPLICATION_DATA'') (take (length news) (fragments eng d)) news"
      "length news = length (fragments eng d)"
      "trafficKeyUpdates s1 = trafficKeyUpdates s"
    by auto
  from n(3) assms(2) have ne: "news \<noteq> []" by auto
  then have sp: "news = butlast news @ [last news]" by simp
  from engineRecords_facts(2) [OF n(2)] ne have c: "sender (last news) = CLIENT" by simp
  have "allPackets s1 = (allPackets s @ butlast news) @ [last news]"
    using n(1) sp by (metis append_assoc)
  from setLastReveal_last [OF this c, of rv] cont(2)
  have "r = Inr ()" and "s' = s1\<lparr>allPackets := (allPackets s @ butlast news) @ [(last news)\<lparr>reveal := rv\<rparr>]\<rparr>"
    by simp_all
  with n show ?thesis by (intro conjI exI [of _ news]) simp_all
qed

lemma writeWithReveal_True:
  "writeWithReveal eng pushToSession d True =
     andThen (tls_write eng pushToSession d) (\<lambda>_. setLastReveal CLIENT (Some Complete))"
  by (rule ext) (simp add: writeWithReveal_def andThen_def skip_def split: prod.splits sum.splits)



section \<open>Bytes and their positions\<close>




section \<open>The records of one span\<close>










section \<open>The loop over the sections\<close>


section \<open>What a write leaves alone\<close>

lemma keeps_andThen:
  assumes "\<And>s. g (snd (m s)) = g s" and "\<And>x s. g (snd (f x s)) = g s"
  shows "g (snd (andThen m f s)) = g s"
proof (cases "m s")
  case (Pair r s1)
  with assms(1) [of s] have e: "g s1 = g s" by simp
  show ?thesis
  proof (cases r)
    case (Inl err)
    with Pair e show ?thesis by (simp add: andThen_def)
  next
    case (Inr x)
    with Pair e assms(2) [of x s1] show ?thesis by (simp add: andThen_def)
  qed
qed








section \<open>One write and the mark that follows\<close>

lemma keys_tls_write:
  "trafficKeyUpdates (snd (tls_write eng pushToSession d s)) = trafficKeyUpdates s"
  using tls_write_any [of eng pushToSession d s "fst (tls_write eng pushToSession d s)"
      "snd (tls_write eng pushToSession d s)"]
  by auto

lemma keys_setLastReveal:
  "trafficKeyUpdates (snd (setLastReveal sd rv s)) = trafficKeyUpdates s"
  by (simp add: setLastReveal_def split: option.splits)

lemma keys_write_then_mark:
  "trafficKeyUpdates (snd (andThen (tls_write eng pushToSession d) (\<lambda>_. setLastReveal sd rv) s))
     = trafficKeyUpdates s"
  by (rule keeps_andThen) (simp_all add: keys_tls_write keys_setLastReveal)

lemma tls_write_nothing: "fragments eng d = [] \<Longrightarrow> tls_write eng pushToSession d = skip"
  by (simp add: tls_write_def)

lemma one_piece_record:
  assumes "list_all2 (engineRecord eng ct) [d] news"
  shows "\<exists>p. news = [p] \<and> butlast news = [] \<and> last news = p \<and> engineRecord eng ct d p"
  using assms by (cases news) (auto simp: list_all2_Cons1)

section \<open>Writes without slices\<close>

lemma key_update_no_sections:
  assumes "defaultWriteRedactionMode s = KeyUpdate"
  shows "write_op eng pushToSession filler d [] s =
     (if d = [] then (Inr (), s)
      else andThen (tls_write eng pushToSession d) (\<lambda>_. setLastReveal CLIENT (Some Complete)) s)"
  using assms
  by (simp add: write_op_def writeRedactedWithKeyUpdate_def lastBlockStart_def sliceFrom_0
      writeWithReveal_True)
     (simp add: andThen_def skip_def)

text \<open>
  Claim C10, as amended. In key-update mode with no slices, the whole buffer is one
  disclosed span: a non-empty buffer is handed to the engine in a single
  \<open>tls.write\<close>, and no traffic-key rotation takes place. What is appended are the
  records the engine makes of the buffer, all client records: when the write
  returns, there is one for each piece, in order, the last marked \<open>Complete\<close> and
  the others without a decision; when a write callback throws, there are the records
  of the pieces before it, without a decision. So when the engine sends the buffer as
  one piece, exactly one client record is appended; it is marked \<open>Complete\<close> and its
  plaintext is the whole buffer with the engine's trailer. An empty buffer is not
  written at all (the guard \<open>if(block.length)\<close>): the write returns and the session
  is unchanged.
\<close>

theorem key_update_no_sections_single_write:
  assumes "defaultWriteRedactionMode s = KeyUpdate"
    and "write_op eng pushToSession filler d [] s = (r, s')"
  shows "trafficKeyUpdates s' = trafficKeyUpdates s
   \<and> (d = [] \<longrightarrow> r = Inr () \<and> s' = s)
   \<and> (d \<noteq> [] \<and> fragments eng d \<noteq> [] \<longrightarrow>
        (\<exists>news. list_all2 (engineRecord eng ''APPLICATION_DATA'')
                   (take (length news) (fragments eng d)) news
           \<and> ((\<exists>e. r = Inl e) \<and> allPackets s' = allPackets s @ news
              \<or> r = Inr () \<and> length news = length (fragments eng d)
                \<and> allPackets s' = allPackets s @ butlast news @ [(last news)\<lparr>reveal := Some Complete\<rparr>])))
   \<and> (d \<noteq> [] \<and> fragments eng d = [d] \<and> r = Inr () \<longrightarrow>
        (\<exists>p. allPackets s' = allPackets s @ [p] \<and> sender p = CLIENT \<and> reveal p = Some Complete
            \<and> ctx p = ciphertext_ctx (d @ trailer eng ''APPLICATION_DATA'') ''APPLICATION_DATA''))"
proof (cases "d = []")
  case True
  with assms show ?thesis by (simp add: key_update_no_sections)
next
  case False
  let ?AD = "''APPLICATION_DATA''"
  from assms False have run:
    "andThen (tls_write eng pushToSession d) (\<lambda>_. setLastReveal CLIENT (Some Complete)) s = (r, s')"
    by (simp add: key_update_no_sections)
  from keys_write_then_mark [of eng pushToSession d CLIENT "Some Complete" s] run
  have k: "trafficKeyUpdates s' = trafficKeyUpdates s" by simp
  have many: "\<exists>news. list_all2 (engineRecord eng ?AD) (take (length news) (fragments eng d)) news
           \<and> ((\<exists>e. r = Inl e) \<and> allPackets s' = allPackets s @ news
              \<or> r = Inr () \<and> length news = length (fragments eng d)
                \<and> allPackets s' = allPackets s @ butlast news @ [(last news)\<lparr>reveal := Some Complete\<rparr>])"
    if "fragments eng d \<noteq> []"
    using tls_write_then_mark [OF run that] by blast
  have one: "\<exists>p. allPackets s' = allPackets s @ [p] \<and> sender p = CLIENT \<and> reveal p = Some Complete
            \<and> ctx p = ciphertext_ctx (d @ trailer eng ?AD) ?AD"
    if f: "fragments eng d = [d]" and ok: "r = Inr ()"
  proof -
    from f have "fragments eng d \<noteq> []" by simp
    from many [OF this] ok f obtain news where
      n: "list_all2 (engineRecord eng ?AD) [d] news"
        "allPackets s' = allPackets s @ butlast news @ [(last news)\<lparr>reveal := Some Complete\<rparr>]"
      by auto
    from one_piece_record [OF n(1)] obtain p where
      "butlast news = []" "last news = p" "engineRecord eng ?AD d p" by blast
    with n(2) show ?thesis
      by (intro exI [of _ "p\<lparr>reveal := Some Complete\<rparr>"]) (simp add: engineRecord_def)
  qed
  from False k many one show ?thesis by blast
qed

theorem key_update_no_sections_witness:
  "write_op tls13Engine countingRelay (CHR ''*'') ''GET /'' [] demoSession =
     (Inr (), demoSession\<lparr>relay := 1,
        allPackets :=
          [\<lparr>packet = \<lparr>header = [23, 3, 3], content = [0, 0, 0, 0, 0]\<rparr>,
            ctx = ciphertext_ctx (''GET /'' @ [CHR 0x17]) ''APPLICATION_DATA'', sender = CLIENT,
            index = 0, reveal = Some Complete\<rparr>]\<rparr>)
   \<and> trafficKeyUpdates (snd (write_op tls13Engine countingRelay (CHR ''*'') ''GET /'' [] demoSession))
       = trafficKeyUpdates (demoSession :: (char, nat) session)
   \<and> (\<exists>p. allPackets (snd (write_op tls13Engine countingRelay (CHR ''*'') ''GET /'' [] demoSession))
            = allPackets demoSession @ [p]
          \<and> sender p = CLIENT \<and> reveal p = Some Complete
          \<and> ctx p = ciphertext_ctx (''GET /'' @ [CHR 0x17]) ''APPLICATION_DATA'')
   \<and> write_op tls13Engine countingRelay (CHR ''*'') (replicate 20000 (CHR ''a'')) [] demoSession =
     (Inr (), demoSession\<lparr>relay := 2,
        allPackets :=
          [\<lparr>packet = \<lparr>header = [23, 3, 3], content = replicate 16380 0\<rparr>,
            ctx = ciphertext_ctx (replicate 16380 (CHR ''a'') @ [CHR 0x17]) ''APPLICATION_DATA'',
            sender = CLIENT, index = 0, reveal = None\<rparr>,
           \<lparr>packet = \<lparr>header = [23, 3, 3], content = replicate 3620 0\<rparr>,
            ctx = ciphertext_ctx (replicate 3620 (CHR ''a'') @ [CHR 0x17]) ''APPLICATION_DATA'',
            sender = CLIENT, index = 1, reveal = Some Complete\<rparr>]\<rparr>)"
proof -
  let ?run = "write_op tls13Engine countingRelay (CHR ''*'') ''GET /'' [] demoSession"
  have m: "defaultWriteRedactionMode (demoSession :: (char, nat) session) = KeyUpdate"
    by (simp add: demoSession_def)
  have r1: "?run =
     (Inr (), demoSession\<lparr>relay := 1,
        allPackets :=
          [\<lparr>packet = \<lparr>header = [23, 3, 3], content = [0, 0, 0, 0, 0]\<rparr>,
            ctx = ciphertext_ctx (''GET /'' @ [CHR 0x17]) ''APPLICATION_DATA'', sender = CLIENT,
            index = 0, reveal = Some Complete\<rparr>]\<rparr>)"
    by (simp add: write_eval2 sliceFrom_0 demoSession_def)
  have r2: "write_op tls13Engine countingRelay (CHR ''*'') (replicate 20000 (CHR ''a'')) [] demoSession =
     (Inr (), demoSession\<lparr>relay := 2,
        allPackets :=
          [\<lparr>packet = \<lparr>header = [23, 3, 3], content = replicate 16380 0\<rparr>,
            ctx = ciphertext_ctx (replicate 16380 (CHR ''a'') @ [CHR 0x17]) ''APPLICATION_DATA'',
            sender = CLIENT, index = 0, reveal = None\<rparr>,
           \<lparr>packet = \<lparr>header = [23, 3, 3], content = replicate 3620 0\<rparr>,
            ctx = ciphertext_ctx (replicate 3620 (CHR ''a'') @ [CHR 0x17]) ''APPLICATION_DATA'',
            sender = CLIENT, index = 1, reveal = Some Complete\<rparr>]\<rparr>)"
    by (simp add: write_eval2 sliceFrom_0 demoSession_def long_chunks)
  have run: "?run = (Inr (), snd ?run)" by (simp add: r1)
  have f: "''GET /'' \<noteq> [] \<and> fragments tls13Engine ''GET /'' = [''GET /''] \<and> (Inr () :: error + unit) = Inr ()"
    by (simp add: chunksOf_short)
  from key_update_no_sections_single_write [OF m run] f
  have "trafficKeyUpdates (snd ?run) = trafficKeyUpdates (demoSession :: (char, nat) session)"
    and "\<exists>p. allPackets (snd ?run) = allPackets demoSession @ [p] \<and> sender p = CLIENT
            \<and> reveal p = Some Complete
            \<and> ctx p = ciphertext_ctx (''GET /'' @ trailer tls13Engine ''APPLICATION_DATA'') ''APPLICATION_DATA''"
    by blast+
  with r1 r2 show ?thesis by simp
qed

text \<open>
  Claim C10 as stated fails on the empty buffer: the write succeeds and the
  transcript has no record, where the claim has exactly one.
\<close>

theorem key_update_empty_buffer_writes_nothing:
  "write_op demoEngine countingRelay (CHR ''*'') [] [] (demoSession :: (char, nat) session) =
     (Inr (), demoSession)
   \<and> allPackets (snd (write_op demoEngine countingRelay (CHR ''*'') [] []
         (demoSession :: (char, nat) session))) = []"
  by (simp add: write_op_def writeRedactedWithKeyUpdate_def lastBlockStart_def sliceFrom_0
      andThen_def skip_def demoSession_def)

section \<open>Zk writes\<close>

text \<open>
  Claim C2, as amended. In zk mode a write hands the whole buffer to the engine in
  a single \<open>tls.write\<close>, without a key update, and then puts the decision \<open>ZK\<close> on the
  last client record of the transcript, with the payload \<open>redactSlices\<close> gives for
  the buffer and the slices; the decision is never \<open>Complete\<close>. When the engine sends
  the buffer in at least one piece, the records of the pieces are appended, and the
  last of them carries the decision when the write returns; so when the engine sends
  the buffer as one piece, exactly one client record is appended, its plaintext is
  the whole buffer with the engine's trailer, and it carries the decision. When the
  engine sends no piece (an empty buffer), nothing is appended and the decision goes
  to the last client record there was, or the write throws if there is none. The
  witness below is Scenario B.
\<close>

theorem zk_write_marks_last_client_record:
  assumes "defaultWriteRedactionMode s = Zk"
    and "write_op eng pushToSession filler d redactedSections s = (r, s')"
  shows "trafficKeyUpdates s' = trafficKeyUpdates s
   \<and> (fragments eng d \<noteq> [] \<longrightarrow>
        (\<exists>news. list_all2 (engineRecord eng ''APPLICATION_DATA'')
                   (take (length news) (fragments eng d)) news
           \<and> ((\<exists>e. r = Inl e) \<and> allPackets s' = allPackets s @ news
              \<or> r = Inr () \<and> length news = length (fragments eng d)
                \<and> allPackets s' = allPackets s @ butlast news @
                    [(last news)\<lparr>reveal := Some (ZK (redactSlices filler d redactedSections))\<rparr>])))
   \<and> (fragments eng d = [d] \<and> r = Inr () \<longrightarrow>
        (\<exists>p. allPackets s' = allPackets s @ [p] \<and> sender p = CLIENT
            \<and> reveal p = Some (ZK (redactSlices filler d redactedSections))
            \<and> ctx p = ciphertext_ctx (d @ trailer eng ''APPLICATION_DATA'') ''APPLICATION_DATA''))
   \<and> (fragments eng d = [] \<longrightarrow>
        (r, s') =
          (case getLastBlock CLIENT (allPackets s) of
             None \<Rightarrow> (Inl (TypeError ''Cannot set properties of undefined''), s)
           | Some i \<Rightarrow>
               (Inr (), s\<lparr>allPackets := (allPackets s)[i := (allPackets s ! i)\<lparr>reveal :=
                   Some (ZK (redactSlices filler d redactedSections))\<rparr>]\<rparr>)))"
proof -
  let ?AD = "''APPLICATION_DATA''"
  let ?zk = "Some (ZK (redactSlices filler d redactedSections))"
  from assms have run:
    "andThen (tls_write eng pushToSession d) (\<lambda>_. setLastReveal CLIENT ?zk) s = (r, s')"
    by (simp add: write_op_def writeRedactedZk_def)
  from keys_write_then_mark [of eng pushToSession d CLIENT ?zk s] run
  have k: "trafficKeyUpdates s' = trafficKeyUpdates s" by simp
  have many: "\<exists>news. list_all2 (engineRecord eng ?AD) (take (length news) (fragments eng d)) news
           \<and> ((\<exists>e. r = Inl e) \<and> allPackets s' = allPackets s @ news
              \<or> r = Inr () \<and> length news = length (fragments eng d)
                \<and> allPackets s' = allPackets s @ butlast news @ [(last news)\<lparr>reveal := ?zk\<rparr>])"
    if "fragments eng d \<noteq> []"
    using tls_write_then_mark [OF run that] by blast
  have one: "\<exists>p. allPackets s' = allPackets s @ [p] \<and> sender p = CLIENT \<and> reveal p = ?zk
            \<and> ctx p = ciphertext_ctx (d @ trailer eng ?AD) ?AD"
    if f: "fragments eng d = [d]" and ok: "r = Inr ()"
  proof -
    from f have "fragments eng d \<noteq> []" by simp
    from many [OF this] ok f obtain news where
      n: "list_all2 (engineRecord eng ?AD) [d] news"
        "allPackets s' = allPackets s @ butlast news @ [(last news)\<lparr>reveal := ?zk\<rparr>]"
      by auto
    from one_piece_record [OF n(1)] obtain p where
      "butlast news = []" "last news = p" "engineRecord eng ?AD d p" by blast
    with n(2) show ?thesis
      by (intro exI [of _ "p\<lparr>reveal := ?zk\<rparr>"]) (simp add: engineRecord_def)
  qed
  have none: "(r, s') =
          (case getLastBlock CLIENT (allPackets s) of
             None \<Rightarrow> (Inl (TypeError ''Cannot set properties of undefined''), s)
           | Some i \<Rightarrow>
               (Inr (), s\<lparr>allPackets := (allPackets s)[i := (allPackets s ! i)\<lparr>reveal := ?zk\<rparr>]\<rparr>))"
    if "fragments eng d = []"
    using run that by (simp add: tls_write_nothing andThen_def skip_def setLastReveal_def)
  from k many one none show ?thesis by blast
qed

theorem zk_write_scenario_witness:
  "slice scenarioInput 32 41 = ''secret123''
   \<and> write_op demoEngine countingRelay (CHR ''*'') scenarioInput
        [\<lparr>fromIndex = 32, toIndex = 41\<rparr>] zkSession =
       (Inr (), zkSession\<lparr>relay := 1,
          allPackets :=
            [\<lparr>packet = \<lparr>header = [23, 3, 3], content = replicate 45 0\<rparr>,
              ctx = ciphertext_ctx scenarioInput ''APPLICATION_DATA'', sender = CLIENT, index = 0,
              reveal = Some (ZK (''GET /x HTTP/1.1'' @ [CHR 0x0D, CHR 0x0A]
                 @ ''Authorization: *********'' @ [CHR 0x0D, CHR 0x0A, CHR 0x0D, CHR 0x0A]))\<rparr>]\<rparr>)
   \<and> (\<exists>p. allPackets (snd (write_op demoEngine countingRelay (CHR ''*'') scenarioInput
                [\<lparr>fromIndex = 32, toIndex = 41\<rparr>] zkSession)) = allPackets zkSession @ [p]
          \<and> sender p = CLIENT
          \<and> reveal p = Some (ZK (''GET /x HTTP/1.1'' @ [CHR 0x0D, CHR 0x0A]
                 @ ''Authorization: *********'' @ [CHR 0x0D, CHR 0x0A, CHR 0x0D, CHR 0x0A]))
          \<and> ctx p = ciphertext_ctx scenarioInput ''APPLICATION_DATA'')"
proof -
  let ?run = "write_op demoEngine countingRelay (CHR ''*'') scenarioInput
        [\<lparr>fromIndex = 32, toIndex = 41\<rparr>] (zkSession :: (char, nat) session)"
  have m: "defaultWriteRedactionMode (zkSession :: (char, nat) session) = Zk"
    by (simp add: zkSession_def)
  have red: "redactSlices (CHR ''*'') scenarioInput [\<lparr>fromIndex = 32, toIndex = 41\<rparr>] =
      ''GET /x HTTP/1.1'' @ [CHR 0x0D, CHR 0x0A]
                 @ ''Authorization: *********'' @ [CHR 0x0D, CHR 0x0A, CHR 0x0D, CHR 0x0A]"
    by code_simp
  have l: "length scenarioInput = 45" by code_simp
  have ne: "scenarioInput \<noteq> []" by (simp add: scenarioInput_def)
  have sl: "slice scenarioInput 32 41 = ''secret123''" by code_simp
  have fr: "fragments demoEngine scenarioInput = [scenarioInput]"
    by (simp add: chunksOf_short ne l)
  have r1: "?run =
       (Inr (), zkSession\<lparr>relay := 1,
          allPackets :=
            [\<lparr>packet = \<lparr>header = [23, 3, 3], content = replicate 45 0\<rparr>,
              ctx = ciphertext_ctx scenarioInput ''APPLICATION_DATA'', sender = CLIENT, index = 0,
              reveal = Some (ZK (redactSlices (CHR ''*'') scenarioInput [\<lparr>fromIndex = 32, toIndex = 41\<rparr>]))\<rparr>]\<rparr>)"
    using fr by (simp add: write_op_def writeRedactedZk_def tls_write_def writeEncryptedPacket_def
        write_cb_def setLastReveal_def getLastBlock_def andThen_def skip_def noSession_def
        countingRelay_def zkSession_def demoSession_def l)
  have run: "?run = (Inr (), snd ?run)" by (simp add: r1)
  from zk_write_marks_last_client_record [OF m run] fr
  have "\<exists>p. allPackets (snd ?run) = allPackets zkSession @ [p] \<and> sender p = CLIENT
            \<and> reveal p = Some (ZK (redactSlices (CHR ''*'') scenarioInput [\<lparr>fromIndex = 32, toIndex = 41\<rparr>]))
            \<and> ctx p = ciphertext_ctx (scenarioInput @ trailer demoEngine ''APPLICATION_DATA'') ''APPLICATION_DATA''"
    by blast
  with r1 sl show ?thesis unfolding red by simp
qed

text \<open>
  Claim C2 as stated fails on the empty buffer: the engine sends no record for it,
  so the write appends nothing, and the decision \<open>ZK\<close> with the empty payload goes to
  the client's hello record, which was in the transcript before.
\<close>

theorem zk_empty_buffer_marks_older_record:
  "allPackets zkHelloSession =
     [\<lparr>packet = \<lparr>header = [22, 3, 3], content = [1]\<rparr>, ctx = plaintext_ctx,
       sender = CLIENT, index = 0, reveal = None\<rparr>]
   \<and> write_op demoEngine countingRelay (CHR ''*'') [] [] zkHelloSession =
       (Inr (), zkHelloSession\<lparr>allPackets :=
          [\<lparr>packet = \<lparr>header = [22, 3, 3], content = [1]\<rparr>, ctx = plaintext_ctx,
            sender = CLIENT, index = 0, reveal = Some (ZK [])\<rparr>]\<rparr>)"
  by (simp add: write_op_def writeRedactedZk_def tls_write_def setLastReveal_def getLastBlock_def
      andThen_def skip_def redactSlices_def zkHelloSession_def zkSession_def demoSession_def)

section \<open>Calls without a session\<close>

text \<open>
  Claim C8. While no session id has been assigned, \<open>cancel\<close> and \<open>finish\<close> both fail
  with the error \<open>Nothing to cancel\<close> (the spec's InvalidState), and the session,
  transcript included, is returned unchanged.
\<close>

theorem no_session_finish_cancel_fail:
  assumes "sessionId s = None"
  shows "cancel cancelSession s = (Inl (Error ''Nothing to cancel''), s)
   \<and> finish redactResponse getBlocksToReveal preparePacketsForReveal finaliseSession s =
       (Inl (Error ''Nothing to cancel''), s)"
  using assms by (simp add: cancel_def finish_def noSession_def)

theorem no_session_witness:
  "cancel cancelOnceRelay (freshSession :: (char, nat) session) =
      (Inl (Error ''Nothing to cancel''), freshSession)
   \<and> finish None (\<lambda>blocks f. Inr RevealAll) (\<lambda>ps. Inr ps) (\<lambda>r sid rb. (Inr (), r))
        (freshSession :: (char, nat) session) =
       (Inl (Error ''Nothing to cancel''), freshSession)"
proof -
  have "sessionId (freshSession :: (char, nat) session) = None"
    by (simp add: freshSession_def)
  from no_session_finish_cancel_fail [OF this] show ?thesis by blast
qed

section \<open>A write error in the orchestrator\<close>

text \<open>
  Claim C5. When the request write fails, the orchestrator looks at the error. A
  \<open>ClientError\<close> with code \<open>FAILED_PRECONDITION\<close> whose message contains
  \<open>session is closed\<close> is not raised: the orchestrator awaits \<open>waitForAllData\<close>, and if
  that is rejected, the rejection's error is the result, not the write error; while
  it stays pending the function does not return. Every other write error is raised
  at once.
\<close>

theorem tolerated_write_error_waits_for_stream_end:
  assumes "write_op eng pushToSession filler reqData redactions s = (Inl err, s1)"
  shows "generateProviderReceipt eng pushToSession filler reqData redactions waitForAllData rest s =
     (if \<exists>m. err = ClientError FAILED_PRECONDITION m \<and> str_includes m ''session is closed''
      then (case waitForAllData of
              Pending \<Rightarrow> None
            | Resolved \<Rightarrow> Some (rest s1)
            | Rejected e \<Rightarrow> Some (Inl e, s1))
      else Some (Inl err, s1))"
  using assms
  by (cases err)
     (auto simp: generateProviderReceipt_def toleratedWriteError_def awaitAllData_def
        split: promise.splits)

theorem tolerated_write_error_witness:
  "generateProviderReceipt demoEngine closedRelay (CHR ''*'') ''GET /'' []
      (Rejected (Error ''upstream connection reset'')) (\<lambda>s. (Inr (), s))
      (demoSession :: (char, nat) session) =
     Some (Inl (Error ''upstream connection reset''), demoSession)
   \<and> generateProviderReceipt demoEngine
        (\<lambda>r sid pkt. (Inl (ClientError 14 ''relay unavailable''), r)) (CHR ''*'') ''GET /'' []
        (Rejected (Error ''upstream connection reset'')) (\<lambda>s. (Inr (), s))
        (demoSession :: (char, nat) session) =
     Some (Inl (ClientError 14 ''relay unavailable''), demoSession)"
proof -
  have m: "defaultWriteRedactionMode (demoSession :: (char, nat) session) = KeyUpdate"
    by (simp add: demoSession_def)
  have w1: "write_op demoEngine closedRelay (CHR ''*'') ''GET /'' []
      (demoSession :: (char, nat) session) =
      (Inl (ClientError 9 ''session is closed''), demoSession)"
    by (simp add: write_op_def writeRedactedWithKeyUpdate_def lastBlockStart_def sliceFrom_0
        writeWithReveal_def tls_write_def writeEncryptedPacket_def chunksOf_short
        write_cb_def noSession_def andThen_def skip_def demoSession_def closedRelay_def)
  have w2: "write_op demoEngine (\<lambda>r sid pkt. (Inl (ClientError 14 ''relay unavailable''), r))
      (CHR ''*'') ''GET /'' [] (demoSession :: (char, nat) session) =
      (Inl (ClientError 14 ''relay unavailable''), demoSession)"
    by (simp add: write_op_def writeRedactedWithKeyUpdate_def lastBlockStart_def sliceFrom_0
        writeWithReveal_def tls_write_def writeEncryptedPacket_def chunksOf_short
        write_cb_def noSession_def andThen_def skip_def demoSession_def)
  have i: "str_includes ''session is closed'' ''session is closed''" by simp
  from tolerated_write_error_waits_for_stream_end [OF w1,
      of "Rejected (Error ''upstream connection reset'')" "\<lambda>s. (Inr (), s)"]
    tolerated_write_error_waits_for_stream_end [OF w2,
      of "Rejected (Error ''upstream connection reset'')" "\<lambda>s. (Inr (), s)"]
  show ?thesis by (simp add: FAILED_PRECONDITION_def)
qed

section \<open>Errors in the pull loop\<close>

lemma tlsEnds_andThen:
  assumes "\<And>s. tlsEnds (snd (m s)) = tlsEnds s" and "\<And>x s. tlsEnds (snd (f x s)) = tlsEnds s"
  shows "tlsEnds (snd (andThen m f s)) = tlsEnds s"
proof (cases "m s")
  case (Pair r s1)
  with assms(1) [of s] have e: "tlsEnds s1 = tlsEnds s" by simp
  show ?thesis
  proof (cases r)
    case (Inl err)
    with Pair e show ?thesis by (simp add: andThen_def)
  next
    case (Inr x)
    with Pair e assms(2) [of x s1] show ?thesis by (simp add: andThen_def)
  qed
qed

lemma tlsEnds_write_cb: "tlsEnds (snd (write_cb pushToSession pkt c s)) = tlsEnds s"
  by (simp add: write_cb_def split: prod.splits sum.splits)

lemma tlsEnds_throwIf: "tlsEnds (snd (throwIf eo s)) = tlsEnds s"
  by (simp add: throwIf_def skip_def throw_def split: option.splits)

lemma tlsEnds_runCallbacks: "tlsEnds (snd (runCallbacks pushToSession cbs s)) = tlsEnds s"
proof (induction cbs arbitrary: s)
  case Nil
  then show ?case by (simp add: skip_def)
next
  case (Cons cb cbs)
  show ?case
  proof (cases cb)
    case (CbWrite pkt c)
    show ?thesis
      unfolding CbWrite runCallbacks.simps
      by (rule tlsEnds_andThen) (simp_all add: tlsEnds_write_cb Cons.IH)
  next
    case (CbHandshake v)
    show ?thesis
      unfolding CbHandshake runCallbacks.simps
      by (rule tlsEnds_andThen) (simp_all add: onHandshake_def Cons.IH)
  next
    case (CbApplicationData d)
    then show ?thesis by (simp add: Cons.IH)
  qed
qed

lemma tlsEnds_onReady: "tlsEnds (snd (onReady pushToSession rx s)) = tlsEnds s"
proof -
  have "tlsEnds (snd (tls_startHandshake pushToSession rx s)) = tlsEnds s"
    unfolding tls_startHandshake_def
    by (rule tlsEnds_andThen) (simp_all add: tlsEnds_runCallbacks tlsEnds_throwIf)
  then show ?thesis by (simp add: onReady_def)
qed

lemma tlsEnds_handleReceivedPacket:
  "tlsEnds (snd (tls_handleReceivedPacket pushToSession pkt rx s)) = tlsEnds s"
  unfolding tls_handleReceivedPacket_def
  by (intro tlsEnds_andThen)
     (simp_all add: tlsEnds_runCallbacks tlsEnds_throwIf onRead_def)

lemma tlsEnds_setLastIndex: "tlsEnds (snd (setLastIndex sd idx s)) = tlsEnds s"
  by (simp add: setLastIndex_def split: option.splits)

lemma tlsEnds_pullLoop: "tlsEnds (snd (pullLoop pushToSession result ending s)) = tlsEnds s"
proof (induction result arbitrary: s)
  case Nil
  then show ?case by (simp add: tlsEnds_throwIf)
next
  case (Cons a rest)
  obtain res rx where a: "a = (res, rx)" by (cases a)
  show ?case
  proof (cases "readyMarker res")
    case True
    have "tlsEnds (snd (andThen (onReady pushToSession rx)
            (\<lambda>_. pullLoop pushToSession rest ending) s)) = tlsEnds s"
      by (rule tlsEnds_andThen) (simp_all add: tlsEnds_onReady Cons.IH)
    with True a show ?thesis by simp
  next
    case False
    have "tlsEnds (snd (andThen (tls_handleReceivedPacket pushToSession (the (pull_message res)) rx) (\<lambda>_.
           andThen (setLastIndex SERVER (pull_index res)) (\<lambda>_.
             pullLoop pushToSession rest ending)) s)) = tlsEnds s"
      by (intro tlsEnds_andThen)
         (simp_all add: tlsEnds_handleReceivedPacket tlsEnds_setLastIndex Cons.IH)
    with False a show ?thesis by simp
  qed
qed

text \<open>
  Claim C6, as amended. Whatever error is raised inside the pull loop (by the
  stream, by the engine while it handles a record, by a write callback it awaits),
  and whether or not the caller has aborted (the session is arbitrary): if the
  error's message contains \<open>aborted\<close>, which is all the code looks at to recognise an
  abort, the error is swallowed and the TLS session is ended without an error, as on
  a normal end of the stream; otherwise the error is raised, from a session in which
  \<open>tls.end\<close> has been called with that error. The loop itself never ends the TLS
  session, so in both cases this is the one call of \<open>tls.end\<close> since the loop began.
\<close>

theorem pull_loop_error_handling:
  assumes "pullLoop pushToSession result ending s = (Inl e, s1)"
  shows "listenToDataFromServer pushToSession result ending s =
     (if str_includes (message e) ''aborted''
      then (Inr (), s1\<lparr>tlsEnds := tlsEnds s @ [None]\<rparr>)
      else (Inl e, s1\<lparr>tlsEnds := tlsEnds s @ [Some e]\<rparr>))"
proof -
  from tlsEnds_pullLoop [of pushToSession result ending s] assms
  have "tlsEnds s1 = tlsEnds s" by simp
  with assms show ?thesis by (simp add: listenToDataFromServer_def tls_end_def)
qed

theorem pull_loop_error_witness:
  "listenToDataFromServer countingRelay [] (Some (Error ''The operation has been aborted''))
      (demoSession :: (char, nat) session) = (Inr (), demoSession\<lparr>tlsEnds := [None]\<rparr>)
   \<and> listenToDataFromServer countingRelay [] (Some (ClientError 13 ''stream reset by relay''))
      (demoSession :: (char, nat) session) =
       (Inl (ClientError 13 ''stream reset by relay''),
        demoSession\<lparr>tlsEnds := [Some (ClientError 13 ''stream reset by relay'')]\<rparr>)"
proof -
  have p: "pullLoop countingRelay [] (Some e) (demoSession :: (char, nat) session) = (Inl e, demoSession)"
    for e by (simp add: throwIf_def throw_def)
  have a: "str_includes ''The operation has been aborted'' ''aborted''" by simp
  have b: "\<not> str_includes ''stream reset by relay'' ''aborted''" by simp
  from pull_loop_error_handling [OF p [of "Error ''The operation has been aborted''"]]
    pull_loop_error_handling [OF p [of "ClientError 13 ''stream reset by relay''"]]
  show ?thesis by (simp add: a b demoSession_def)
qed

text \<open>
  Claim C6 as stated fails for an error that does not stem from the caller's abort
  but has \<open>aborted\<close> in its message: the caller has not aborted, the stream ends with
  the relay's error, and the error is swallowed; \<open>tls.end\<close> is called without it.
\<close>

theorem relay_error_mentioning_aborted_is_swallowed:
  "pullFromSessionAbort (demoSession :: (char, nat) session) = Some False
   \<and> listenToDataFromServer countingRelay [] (Some (ClientError 10 ''transaction aborted by peer''))
        (demoSession :: (char, nat) session) = (Inr (), demoSession\<lparr>tlsEnds := [None]\<rparr>)"
  by (simp add: listenToDataFromServer_def throwIf_def throw_def tls_end_def demoSession_def)

section \<open>Repeated cancel\<close>

text \<open>
  Claim C7, as amended. After a successful \<open>cancel\<close> the session id is still set, so
  a second \<open>cancel\<close> passes the guard, sends \<open>cancelSession\<close> to the relay again and,
  if the relay accepts, ends TLS once more. It appends no record in either case, and
  it throws exactly when the relay rejects the repeated request.
\<close>

theorem second_cancel_resends_to_relay:
  assumes "cancel cancelSession s = (Inr (), s1)"
  shows "cancel cancelSession s1 =
      (case cancelSession (relay s1) (the (sessionId s1)) of
         (Some e, r') \<Rightarrow> (Inl e, s1\<lparr>relay := r'\<rparr>)
       | (None, r') \<Rightarrow> (Inr (), s1\<lparr>relay := r', tlsEnds := tlsEnds s1 @ [None]\<rparr>))
   \<and> allPackets (snd (cancel cancelSession s1)) = allPackets s
   \<and> sessionId s1 = sessionId s"
proof -
  from assms have ns: "\<not> noSession (sessionId s)"
    by (auto simp: cancel_def split: if_splits)
  with assms obtain r' where
    s1: "s1 = tls_end None ((abortPull s)\<lparr>relay := r'\<rparr>)"
    by (auto simp: cancel_def split: prod.splits option.splits)
  have sid: "sessionId s1 = sessionId s" and pk: "allPackets s1 = allPackets s"
    by (simp_all add: s1 tls_end_def abortPull_def)
  have ab: "abortPull s1 = s1"
    by (simp add: s1 tls_end_def abortPull_def option.map_comp comp_def)
  have c: "cancel cancelSession s1 =
      (case cancelSession (relay s1) (the (sessionId s1)) of
         (Some e, r') \<Rightarrow> (Inl e, s1\<lparr>relay := r'\<rparr>)
       | (None, r') \<Rightarrow> (Inr (), s1\<lparr>relay := r', tlsEnds := tlsEnds s1 @ [None]\<rparr>))"
    using ns by (simp add: cancel_def sid ab tls_end_def split: prod.splits option.splits)
  have "allPackets (snd (cancel cancelSession s1)) = allPackets s"
    unfolding c using pk by (simp split: prod.splits option.splits)
  with c sid show ?thesis by blast
qed

theorem second_cancel_witness:
  "cancel (\<lambda>r sid. (None, Suc r))
       ((demoSession :: (char, nat) session)\<lparr>pullFromSessionAbort := Some True, relay := 1, tlsEnds := [None]\<rparr>) =
     (Inr (), demoSession\<lparr>pullFromSessionAbort := Some True, relay := 2, tlsEnds := [None, None]\<rparr>)"
proof -
  have c: "cancel (\<lambda>r sid. (None, Suc r)) (demoSession :: (char, nat) session) =
     (Inr (), demoSession\<lparr>pullFromSessionAbort := Some True, relay := 1, tlsEnds := [None]\<rparr>)"
    by (simp add: cancel_def demoSession_def noSession_def abortPull_def tls_end_def)
  from second_cancel_resends_to_relay [OF c] show ?thesis
    by (simp add: demoSession_def)
qed

text \<open>
  Claim C7 as stated fails against a relay that knows a session only until it is
  cancelled: the first \<open>cancel\<close> succeeds, the second throws the relay's error.
\<close>

theorem second_cancel_throws_relay_error:
  "cancel cancelOnceRelay (demoSession :: (char, nat) session) =
     (Inr (), demoSession\<lparr>pullFromSessionAbort := Some True, relay := 1, tlsEnds := [None]\<rparr>)
   \<and> cancel cancelOnceRelay
       ((demoSession :: (char, nat) session)\<lparr>pullFromSessionAbort := Some True, relay := 1, tlsEnds := [None]\<rparr>) =
     (Inl (ClientError 5 ''session not found''),
      demoSession\<lparr>pullFromSessionAbort := Some True, relay := 1, tlsEnds := [None]\<rparr>)"
  by (simp add: cancel_def cancelOnceRelay_def demoSession_def noSession_def abortPull_def tls_end_def)

section \<open>The marks made by finish\<close>

lemma isApplicationData_Some:
  "\<exists>b. isApplicationData (Some v) p = Inr b"
  by (auto simp: isApplicationData_def split: TLSPacketContext.splits)

lemma isApplicationData_reveal [simp]:
  "isApplicationData md (p\<lparr>reveal := rv\<rparr>) = isApplicationData md p"
  by (simp add: isApplicationData_def)

lemma serverBlocksFrom_aux:
  assumes g: "g = (\<lambda>p. if v = TLS1_3 then butlast (ctxPlaintext (ctx p)) else ctxPlaintext (ctx p))"
    and P: "P = (\<lambda>p. sender p = SERVER \<and> isApplicationData (Some v) p = Inr True)"
  shows "serverBlocksFrom (Some v) i0 ps =
     Inr (map (\<lambda>i. (g (ps ! (i - i0)), i)) (filter (\<lambda>i. P (ps ! (i - i0))) [i0..<i0 + length ps]))"
proof (induction ps arbitrary: i0)
  case Nil
  then show ?case by simp
next
  case (Cons b rest)
  define hi where "hi = Suc i0 + length rest"
  define tl_blocks where "tl_blocks =
      map (\<lambda>i. (g (rest ! (i - Suc i0)), i)) (filter (\<lambda>i. P (rest ! (i - Suc i0))) [Suc i0..<hi])"
  have ih: "serverBlocksFrom (Some v) (Suc i0) rest = Inr tl_blocks"
    unfolding tl_blocks_def hi_def by (rule Cons.IH)
  have upt: "[i0..<i0 + length (b # rest)] = i0 # [Suc i0..<hi]"
    unfolding hi_def by (subst upt_rec) simp
  have shift: "(b # rest) ! (i - i0) = rest ! (i - Suc i0)" if "i \<in> set [Suc i0..<hi]" for i
  proof -
    from that have "Suc i0 \<le> i" by auto
    then have "i - i0 = Suc (i - Suc i0)" by simp
    then show ?thesis by simp
  qed
  have f: "filter (\<lambda>i. P ((b # rest) ! (i - i0))) [Suc i0..<hi]
         = filter (\<lambda>i. P (rest ! (i - Suc i0))) [Suc i0..<hi]"
    by (rule filter_cong [OF refl]) (simp only: shift)
  have m: "map (\<lambda>i. (g ((b # rest) ! (i - i0)), i)) (filter (\<lambda>i. P ((b # rest) ! (i - i0))) [Suc i0..<hi])
        = tl_blocks"
    unfolding f tl_blocks_def
    by (rule map_cong [OF refl]) (simp only: shift set_filter mem_Collect_eq)
  have rhs: "map (\<lambda>i. (g ((b # rest) ! (i - i0)), i))
               (filter (\<lambda>i. P ((b # rest) ! (i - i0))) [i0..<i0 + length (b # rest)])
       = (if P b then (g b, i0) # tl_blocks else tl_blocks)"
    unfolding upt using m by simp
  obtain ad where ad: "isApplicationData (Some v) b = Inr ad"
    using isApplicationData_Some by blast
  have lhs: "serverBlocksFrom (Some v) i0 (b # rest)
       = Inr (if P b then (g b, i0) # tl_blocks else tl_blocks)"
  proof (cases "ctx b")
    case plaintext_ctx
    then have "isApplicationData (Some v) b = Inr False" by (simp add: isApplicationData_def)
    with plaintext_ctx ih show ?thesis by (simp add: P)
  next
    case (ciphertext_ctx pt ct)
    with ad ih show ?thesis by (cases ad) (simp_all add: ctxPlaintext_def g P)
  qed
  show ?case unfolding lhs rhs ..
qed

lemma serverBlocksFrom_Some:
  "serverBlocksFrom (Some v) 0 ps =
     Inr (map (\<lambda>i. (if v = TLS1_3 then butlast (ctxPlaintext (ctx (ps ! i)))
                      else ctxPlaintext (ctx (ps ! i)), i))
            (filter (\<lambda>i. sender (ps ! i) = SERVER \<and> isApplicationData (Some v) (ps ! i) = Inr True)
               [0..<length ps]))"
  using serverBlocksFrom_aux [OF refl refl, of v 0 ps] by simp

lemma revealAllServer_nth:
  "length (revealAllServer ps) = length ps"
  "i < length ps \<Longrightarrow> revealAllServer ps ! i =
     (if sender (ps ! i) = SERVER then (ps ! i)\<lparr>reveal := Some Complete\<rparr> else ps ! i)"
  by (simp_all add: revealAllServer_def)

lemma revealBlocks_None:
  "revealBlocks bs ps = (None, ps1) \<Longrightarrow>
     length ps1 = length ps \<and>
     (\<forall>i<length ps.
        (i \<notin> snd ` block ` set bs \<longrightarrow> ps1 ! i = ps ! i) \<and>
        (i \<in> snd ` block ` set bs \<longrightarrow>
           (\<exists>b\<in>set bs. snd (block b) = i \<and>
              ps1 ! i = (ps ! i)\<lparr>reveal := Some (ZK (redactedPlaintext b))\<rparr>)))"
proof (induction bs arbitrary: ps)
  case Nil
  then show ?case by simp
next
  case (Cons b bs)
  let ?k = "snd (block b)"
  let ?ps = "ps[?k := (ps ! ?k)\<lparr>reveal := Some (ZK (redactedPlaintext b))\<rparr>]"
  from Cons.prems have k: "?k < length ps" and run: "revealBlocks bs ?ps = (None, ps1)"
    by (auto split: if_splits)
  from Cons.IH [OF run] have len: "length ps1 = length ps"
    and out: "\<And>i. i < length ps \<Longrightarrow> i \<notin> snd ` block ` set bs \<Longrightarrow> ps1 ! i = ?ps ! i"
    and inn: "\<And>i. i < length ps \<Longrightarrow> i \<in> snd ` block ` set bs \<Longrightarrow>
           \<exists>b'\<in>set bs. snd (block b') = i \<and>
              ps1 ! i = (?ps ! i)\<lparr>reveal := Some (ZK (redactedPlaintext b'))\<rparr>"
    by simp_all
  have upd: "(?ps ! i)\<lparr>reveal := rv\<rparr> = (ps ! i)\<lparr>reveal := rv\<rparr>" if "i < length ps" for i rv
    using that by (cases "i = ?k") simp_all
  have "(i \<notin> snd ` block ` set (b # bs) \<longrightarrow> ps1 ! i = ps ! i) \<and>
        (i \<in> snd ` block ` set (b # bs) \<longrightarrow>
           (\<exists>b'\<in>set (b # bs). snd (block b') = i \<and>
              ps1 ! i = (ps ! i)\<lparr>reveal := Some (ZK (redactedPlaintext b'))\<rparr>))"
    if i: "i < length ps" for i
  proof (cases "i \<in> snd ` block ` set bs")
    case True
    from inn [OF i True] obtain b' where "b' \<in> set bs" "snd (block b') = i"
      "ps1 ! i = (?ps ! i)\<lparr>reveal := Some (ZK (redactedPlaintext b'))\<rparr>" by blast
    with upd [OF i] have w: "b' \<in> set (b # bs)" "snd (block b') = i"
       "ps1 ! i = (ps ! i)\<lparr>reveal := Some (ZK (redactedPlaintext b'))\<rparr>" by simp_all
    then have "\<exists>b'\<in>set (b # bs). snd (block b') = i \<and>
              ps1 ! i = (ps ! i)\<lparr>reveal := Some (ZK (redactedPlaintext b'))\<rparr>"
      by (intro bexI [of _ b']) simp_all
    moreover from True have "i \<in> snd ` block ` set (b # bs)" by simp
    ultimately show ?thesis by simp
  next
    case False
    from out [OF i False] have e: "ps1 ! i = ?ps ! i" .
    show ?thesis
    proof (cases "i = ?k")
      case True
      with e k have "ps1 ! i = (ps ! i)\<lparr>reveal := Some (ZK (redactedPlaintext b))\<rparr>" by simp
      with True show ?thesis by auto
    next
      case neq: False
      with e have "ps1 ! i = ps ! i" by simp
      with neq False show ?thesis by auto
    qed
  qed
  with len show ?case by blast
qed

lemma ex_le_Cons:
  "(\<exists>j\<le>Suc k. P ((x # xs) ! j)) \<longleftrightarrow> P x \<or> (\<exists>j\<le>k. P (xs ! j))"
proof
  assume "\<exists>j\<le>Suc k. P ((x # xs) ! j)"
  then obtain j where j: "j \<le> Suc k" "P ((x # xs) ! j)" by blast
  show "P x \<or> (\<exists>j\<le>k. P (xs ! j))"
  proof (cases j)
    case 0
    with j show ?thesis by simp
  next
    case (Suc m)
    with j have "m \<le> k" "P (xs ! m)" by simp_all
    then show ?thesis by blast
  qed
next
  assume "P x \<or> (\<exists>j\<le>k. P (xs ! j))"
  then show "\<exists>j\<le>Suc k. P ((x # xs) ! j)"
  proof
    assume "P x"
    then have "0 \<le> Suc k \<and> P ((x # xs) ! 0)" by simp
    then show ?thesis by blast
  next
    assume "\<exists>j\<le>k. P (xs ! j)"
    then obtain j where "j \<le> k" "P (xs ! j)" by blast
    then have "Suc j \<le> Suc k \<and> P ((x # xs) ! Suc j)" by simp
    then show ?thesis by blast
  qed
qed

lemma revealHandshake_None:
  "revealHandshake md mode ps = (None, ps') \<Longrightarrow>
     length ps' = length ps \<and>
     (\<forall>i<length ps. ps' ! i =
        (if sender (ps ! i) = CLIENT \<and> \<not> (\<exists>j\<le>i. clientAppData md (ps ! j))
         then handshakeMark mode (ps ! i) else ps ! i))"
proof (induction ps arbitrary: ps')
  case Nil
  then show ?case by simp
next
  case (Cons p ps)
  let ?goal = "\<lambda>ps'. length ps' = length (p # ps) \<and>
     (\<forall>i<length (p # ps). ps' ! i =
        (if sender ((p # ps) ! i) = CLIENT \<and> \<not> (\<exists>j\<le>i. clientAppData md ((p # ps) ! j))
         then handshakeMark mode ((p # ps) ! i) else (p # ps) ! i))"
  have step: "?goal (q # qs)"
    if rest: "revealHandshake md mode ps = (None, qs)"
      and q: "q = (if sender p = CLIENT then handshakeMark mode p else p)"
      and nad: "\<not> clientAppData md p" for q qs
  proof -
    from Cons.IH [OF rest] have len: "length qs = length ps"
      and nth: "\<And>i. i < length ps \<Longrightarrow> qs ! i =
        (if sender (ps ! i) = CLIENT \<and> \<not> (\<exists>j\<le>i. clientAppData md (ps ! j))
         then handshakeMark mode (ps ! i) else ps ! i)" by simp_all
    have "(q # qs) ! i =
        (if sender ((p # ps) ! i) = CLIENT \<and> \<not> (\<exists>j\<le>i. clientAppData md ((p # ps) ! j))
         then handshakeMark mode ((p # ps) ! i) else (p # ps) ! i)"
      if i: "i < length (p # ps)" for i
    proof (cases i)
      case 0
      with q nad show ?thesis by simp
    next
      case (Suc k)
      with i have k: "k < length ps" by simp
      have ex: "(\<exists>j\<le>Suc k. clientAppData md ((p # ps) ! j)) \<longleftrightarrow> (\<exists>j\<le>k. clientAppData md (ps ! j))"
        using nad by (simp only: ex_le_Cons [of k "clientAppData md" p ps] simp_thms)
      have "(q # qs) ! Suc k = qs ! k" "(p # ps) ! Suc k = ps ! k" by simp_all
      then show ?thesis unfolding Suc ex using nth [OF k] by (simp only:)
    qed
    with len show ?thesis by simp
  qed
  show ?case
  proof (cases "sender p = CLIENT")
    case False
    with Cons.prems obtain qs where "revealHandshake md mode ps = (None, qs)" "ps' = p # qs"
      by (cases "revealHandshake md mode ps") auto
    moreover from False have "\<not> clientAppData md p" by (simp add: clientAppData_def)
    ultimately show ?thesis using step [of qs p] False by simp
  next
    case True
    show ?thesis
    proof (cases "ctx p")
      case plaintext_ctx
      with True Cons.prems obtain qs where "revealHandshake md mode ps = (None, qs)" "ps' = p # qs"
        by (cases "revealHandshake md mode ps") auto
      moreover from plaintext_ctx have "\<not> clientAppData md p"
        by (simp add: clientAppData_def isApplicationData_def)
      moreover from plaintext_ctx have "handshakeMark mode p = p" by (simp add: handshakeMark_def)
      ultimately show ?thesis using step [of qs p] by simp
    next
      case (ciphertext_ctx pt ct)
      show ?thesis
      proof (cases "isApplicationData md p")
        case (Inl e)
        with True ciphertext_ctx Cons.prems show ?thesis by simp
      next
        case (Inr ad)
        show ?thesis
        proof (cases ad)
          case True
          with Inr \<open>sender p = CLIENT\<close> ciphertext_ctx Cons.prems have e: "ps' = p # ps" by simp
          have c: "clientAppData md p"
            using True Inr \<open>sender p = CLIENT\<close> by (simp add: clientAppData_def)
          have "\<exists>j\<le>i. clientAppData md ((p # ps) ! j)" for i
            using c by (intro exI [of _ 0]) simp
          with e show ?thesis by simp
        next
          case False
          with Inr \<open>sender p = CLIENT\<close> ciphertext_ctx Cons.prems obtain qs where
            r: "revealHandshake md mode ps = (None, qs)"
            and e: "ps' = p\<lparr>reveal := Some (if mode = Zk then ZK pt else Complete)\<rparr> # qs"
            by (cases "revealHandshake md mode ps") auto
          have n: "\<not> clientAppData md p" using False Inr by (simp add: clientAppData_def)
          have h: "handshakeMark mode p = p\<lparr>reveal := Some (if mode = Zk then ZK pt else Complete)\<rparr>"
            using ciphertext_ctx by (simp add: handshakeMark_def)
          from step [OF r _ n, of "handshakeMark mode p"] \<open>sender p = CLIENT\<close> e h
          show ?thesis by simp
        qed
      qed
    qed
  qed
qed

lemma finish_Inr:
  assumes "finish redactResponse getBlocksToReveal preparePacketsForReveal finaliseSession s
             = (Inr result, s')"
  shows "\<exists>v toReveal ps1.
     metadata s = Some v
     \<and> (case redactResponse of
          None \<Rightarrow> toReveal = RevealAll
        | Some f \<Rightarrow> (\<exists>blocks. serverBlocksFrom (Some v) 0 (allPackets s) = Inr blocks
                        \<and> getBlocksToReveal blocks f = Inr toReveal))
     \<and> (case toReveal of
          RevealAll \<Rightarrow> (None, revealAllServer (allPackets s))
        | RevealBlocks bs \<Rightarrow> revealBlocks bs (allPackets s)) = (None, ps1)
     \<and> revealHandshake (Some v) (defaultWriteRedactionMode s) ps1 = (None, allPackets s')"
proof -
  from assms have ns: "\<not> noSession (sessionId s)"
    by (auto simp: finish_def split: if_splits)
  define tr where "tr = (case redactResponse of
                 None \<Rightarrow> Inr RevealAll
               | Some f \<Rightarrow>
                   (case serverBlocksFrom (metadata s) 0 (allPackets s) of
                      Inl e \<Rightarrow> Inl e
                    | Inr serverBlocks \<Rightarrow> getBlocksToReveal serverBlocks f))"
  from assms ns obtain toReveal where tr: "tr = Inr toReveal"
    unfolding finish_def tr_def by (cases tr) (auto simp: tr_def split: sum.splits)
  define ph1 where "ph1 = (case toReveal of
                      RevealAll \<Rightarrow> (None, revealAllServer (allPackets s))
                    | RevealBlocks bs \<Rightarrow> revealBlocks bs (allPackets s))"
  from assms ns tr obtain ps1 where ph1: "ph1 = (None, ps1)"
    unfolding finish_def tr_def [symmetric] ph1_def
    by (cases ph1) (auto simp: ph1_def split: option.splits prod.splits)
  define ph2 where "ph2 = revealHandshake (metadata s) (defaultWriteRedactionMode s) ps1"
  from assms ns tr ph1 obtain ps2 where ph2: "ph2 = (None, ps2)"
    unfolding finish_def tr_def [symmetric]
    by (cases ph2) (auto simp: ph1_def [symmetric] ph2_def split: option.splits prod.splits)
  from assms ns tr ph1 ph2 have md: "metadata s \<noteq> None" and ps2: "allPackets s' = ps2"
    unfolding finish_def tr_def [symmetric]
    by (auto simp: ph1_def [symmetric] ph2_def [symmetric] abortPull_def tls_end_def
          split: if_splits sum.splits prod.splits)
  then obtain v where v: "metadata s = Some v" by blast
  have "case redactResponse of
          None \<Rightarrow> toReveal = RevealAll
        | Some f \<Rightarrow> (\<exists>blocks. serverBlocksFrom (Some v) 0 (allPackets s) = Inr blocks
                        \<and> getBlocksToReveal blocks f = Inr toReveal)"
    using tr v by (auto simp: tr_def split: option.splits sum.splits)
  moreover from ph1 have "(case toReveal of
          RevealAll \<Rightarrow> (None, revealAllServer (allPackets s))
        | RevealBlocks bs \<Rightarrow> revealBlocks bs (allPackets s)) = (None, ps1)"
    by (simp add: ph1_def)
  moreover from ph2 ps2 v
  have "revealHandshake (Some v) (defaultWriteRedactionMode s) ps1 = (None, allPackets s')"
    by (simp add: ph2_def)
  ultimately show ?thesis using v
    by (intro exI [of _ v] exI [of _ toReveal] exI [of _ ps1]) simp
qed

lemma finished_run:
  "finish (Some noSlices) revealGivenBlocks prepareAsIs acceptFinalise handshakeSession
     = (Inr (), finishedSession)"
proof -
  have "fst (finish (Some noSlices) revealGivenBlocks prepareAsIs acceptFinalise handshakeSession)
      = Inr ()"
    by code_simp
  then show ?thesis unfolding finishedSession_def by (metis prod.collapse)
qed

lemma finished_packets:
  "map reveal (allPackets finishedSession) =
     [None, None, None, Some Complete, Some Complete, None, None, Some (ZK ''200 OK'')]"
  by code_simp

section \<open>Server records at finish\<close>

text \<open>
  Claim C4, as amended. Server records get their reveal decision in \<open>finish\<close>. Without
  a response-redaction function every server record is marked \<open>Complete\<close>. With one,
  the server's application-data records are collected in transcript order, each with
  its position, and in TLS1.3 with the last byte of its plaintext (the content type)
  cut off; the function and these blocks go to \<open>getBlocksToReveal\<close>, and its answer
  decides: for a list of blocks, each listed record gets \<open>ZK\<close> with the block's redacted
  plaintext and every other server record keeps what it had (no decision); for
  \<open>'all'\<close>, every server record is marked \<open>Complete\<close>, as without a function.
\<close>

theorem server_records_revealed_at_finish:
  assumes "finish redactResponse getBlocksToReveal preparePacketsForReveal finaliseSession s
             = (Inr result, s')"
  shows "length (allPackets s') = length (allPackets s)
   \<and> (redactResponse = None \<longrightarrow>
        (\<forall>i<length (allPackets s). sender (allPackets s ! i) = SERVER \<longrightarrow>
           allPackets s' ! i = (allPackets s ! i)\<lparr>reveal := Some Complete\<rparr>))
   \<and> (\<forall>f. redactResponse = Some f \<longrightarrow>
        (\<exists>v blocks. metadata s = Some v
           \<and> blocks = map (\<lambda>i. (if v = TLS1_3 then butlast (ctxPlaintext (ctx (allPackets s ! i)))
                                  else ctxPlaintext (ctx (allPackets s ! i)), i))
                        (filter (\<lambda>i. sender (allPackets s ! i) = SERVER
                                   \<and> isApplicationData (Some v) (allPackets s ! i) = Inr True)
                           [0..<length (allPackets s)])
           \<and> (getBlocksToReveal blocks f = Inr RevealAll
                \<and> (\<forall>i<length (allPackets s). sender (allPackets s ! i) = SERVER \<longrightarrow>
                      allPackets s' ! i = (allPackets s ! i)\<lparr>reveal := Some Complete\<rparr>)
              \<or> (\<exists>bs. getBlocksToReveal blocks f = Inr (RevealBlocks bs)
                    \<and> (\<forall>i<length (allPackets s). sender (allPackets s ! i) = SERVER \<longrightarrow>
                          (i \<notin> snd ` block ` set bs \<longrightarrow> allPackets s' ! i = allPackets s ! i)
                        \<and> (i \<in> snd ` block ` set bs \<longrightarrow>
                             (\<exists>b\<in>set bs. snd (block b) = i \<and>
                                allPackets s' ! i =
                                  (allPackets s ! i)\<lparr>reveal := Some (ZK (redactedPlaintext b))\<rparr>)))))))"
proof -
  let ?ps = "allPackets s"
  from finish_Inr [OF assms] obtain v toReveal ps1 where
    v: "metadata s = Some v"
    and tr: "case redactResponse of
          None \<Rightarrow> toReveal = RevealAll
        | Some f \<Rightarrow> (\<exists>blocks. serverBlocksFrom (Some v) 0 ?ps = Inr blocks
                        \<and> getBlocksToReveal blocks f = Inr toReveal)"
    and ph1: "(case toReveal of
          RevealAll \<Rightarrow> (None, revealAllServer ?ps)
        | RevealBlocks bs \<Rightarrow> revealBlocks bs ?ps) = (None, ps1)"
    and ph2: "revealHandshake (Some v) (defaultWriteRedactionMode s) ps1 = (None, allPackets s')"
    by blast
  from revealHandshake_None [OF ph2] have len2: "length (allPackets s') = length ps1"
    and nth2: "\<And>i. i < length ps1 \<Longrightarrow> sender (ps1 ! i) = SERVER \<Longrightarrow> allPackets s' ! i = ps1 ! i"
    by simp_all
  have all: "length (allPackets s') = length ?ps \<and>
      (\<forall>i<length ?ps. sender (?ps ! i) = SERVER \<longrightarrow>
           allPackets s' ! i = (?ps ! i)\<lparr>reveal := Some Complete\<rparr>)"
    if "toReveal = RevealAll"
  proof -
    from that ph1 have p1: "ps1 = revealAllServer ?ps" by simp
    then have l: "length ps1 = length ?ps" by (simp add: revealAllServer_nth)
    have "allPackets s' ! i = (?ps ! i)\<lparr>reveal := Some Complete\<rparr>"
      if i: "i < length ?ps" and sv: "sender (?ps ! i) = SERVER" for i
    proof -
      from i sv have e: "ps1 ! i = (?ps ! i)\<lparr>reveal := Some Complete\<rparr>"
        by (simp add: p1 revealAllServer_nth)
      then have "sender (ps1 ! i) = SERVER" using sv by simp
      from nth2 [OF _ this] i l e show ?thesis by simp
    qed
    with len2 l show ?thesis by simp
  qed
  have blk: "length (allPackets s') = length ?ps \<and>
      (\<forall>i<length ?ps. sender (?ps ! i) = SERVER \<longrightarrow>
          (i \<notin> snd ` block ` set bs \<longrightarrow> allPackets s' ! i = ?ps ! i)
        \<and> (i \<in> snd ` block ` set bs \<longrightarrow>
             (\<exists>b\<in>set bs. snd (block b) = i \<and>
                allPackets s' ! i = (?ps ! i)\<lparr>reveal := Some (ZK (redactedPlaintext b))\<rparr>)))"
    if "toReveal = RevealBlocks bs" for bs
  proof -
    from that ph1 have "revealBlocks bs ?ps = (None, ps1)" by simp
    from revealBlocks_None [OF this] have l: "length ps1 = length ?ps"
      and out: "\<And>i. i < length ?ps \<Longrightarrow> i \<notin> snd ` block ` set bs \<Longrightarrow> ps1 ! i = ?ps ! i"
      and inn: "\<And>i. i < length ?ps \<Longrightarrow> i \<in> snd ` block ` set bs \<Longrightarrow>
           \<exists>b\<in>set bs. snd (block b) = i \<and>
              ps1 ! i = (?ps ! i)\<lparr>reveal := Some (ZK (redactedPlaintext b))\<rparr>"
      by simp_all
    have "(i \<notin> snd ` block ` set bs \<longrightarrow> allPackets s' ! i = ?ps ! i)
        \<and> (i \<in> snd ` block ` set bs \<longrightarrow>
             (\<exists>b\<in>set bs. snd (block b) = i \<and>
                allPackets s' ! i = (?ps ! i)\<lparr>reveal := Some (ZK (redactedPlaintext b))\<rparr>))"
      if i: "i < length ?ps" and sv: "sender (?ps ! i) = SERVER" for i
    proof (cases "i \<in> snd ` block ` set bs")
      case True
      from inn [OF i True] obtain b where b: "b \<in> set bs" "snd (block b) = i"
        "ps1 ! i = (?ps ! i)\<lparr>reveal := Some (ZK (redactedPlaintext b))\<rparr>" by blast
      then have "sender (ps1 ! i) = SERVER" using sv by simp
      from nth2 [OF _ this] i l b(3)
      have "allPackets s' ! i = (?ps ! i)\<lparr>reveal := Some (ZK (redactedPlaintext b))\<rparr>" by simp
      with b(1,2) have "\<exists>b\<in>set bs. snd (block b) = i \<and>
                allPackets s' ! i = (?ps ! i)\<lparr>reveal := Some (ZK (redactedPlaintext b))\<rparr>"
        by (intro bexI [of _ b]) simp_all
      with True show ?thesis by simp
    next
      case False
      from out [OF i False] have e: "ps1 ! i = ?ps ! i" .
      then have "sender (ps1 ! i) = SERVER" using sv by simp
      from nth2 [OF _ this] i l e have "allPackets s' ! i = ?ps ! i" by simp
      with False show ?thesis by simp
    qed
    with len2 l show ?thesis by simp
  qed
  have len: "length (allPackets s') = length ?ps"
    using all blk by (cases toReveal) simp_all
  have none: "\<forall>i<length ?ps. sender (?ps ! i) = SERVER \<longrightarrow>
           allPackets s' ! i = (?ps ! i)\<lparr>reveal := Some Complete\<rparr>"
    if "redactResponse = None"
    using that tr all by simp
  have some: "\<exists>v blocks. metadata s = Some v
           \<and> blocks = map (\<lambda>i. (if v = TLS1_3 then butlast (ctxPlaintext (ctx (?ps ! i)))
                                  else ctxPlaintext (ctx (?ps ! i)), i))
                        (filter (\<lambda>i. sender (?ps ! i) = SERVER
                                   \<and> isApplicationData (Some v) (?ps ! i) = Inr True)
                           [0..<length ?ps])
           \<and> (getBlocksToReveal blocks f = Inr RevealAll
                \<and> (\<forall>i<length ?ps. sender (?ps ! i) = SERVER \<longrightarrow>
                      allPackets s' ! i = (?ps ! i)\<lparr>reveal := Some Complete\<rparr>)
              \<or> (\<exists>bs. getBlocksToReveal blocks f = Inr (RevealBlocks bs)
                    \<and> (\<forall>i<length ?ps. sender (?ps ! i) = SERVER \<longrightarrow>
                          (i \<notin> snd ` block ` set bs \<longrightarrow> allPackets s' ! i = ?ps ! i)
                        \<and> (i \<in> snd ` block ` set bs \<longrightarrow>
                             (\<exists>b\<in>set bs. snd (block b) = i \<and>
                                allPackets s' ! i =
                                  (?ps ! i)\<lparr>reveal := Some (ZK (redactedPlaintext b))\<rparr>)))))"
    if rr: "redactResponse = Some f" for f
  proof -
    let ?blocks = "map (\<lambda>i. (if v = TLS1_3 then butlast (ctxPlaintext (ctx (?ps ! i)))
                                  else ctxPlaintext (ctx (?ps ! i)), i))
                        (filter (\<lambda>i. sender (?ps ! i) = SERVER
                                   \<and> isApplicationData (Some v) (?ps ! i) = Inr True)
                           [0..<length ?ps])"
    from rr tr have g: "getBlocksToReveal ?blocks f = Inr toReveal"
      by (simp add: serverBlocksFrom_Some)
    have "getBlocksToReveal ?blocks f = Inr RevealAll
                \<and> (\<forall>i<length ?ps. sender (?ps ! i) = SERVER \<longrightarrow>
                      allPackets s' ! i = (?ps ! i)\<lparr>reveal := Some Complete\<rparr>)
              \<or> (\<exists>bs. getBlocksToReveal ?blocks f = Inr (RevealBlocks bs)
                    \<and> (\<forall>i<length ?ps. sender (?ps ! i) = SERVER \<longrightarrow>
                          (i \<notin> snd ` block ` set bs \<longrightarrow> allPackets s' ! i = ?ps ! i)
                        \<and> (i \<in> snd ` block ` set bs \<longrightarrow>
                             (\<exists>b\<in>set bs. snd (block b) = i \<and>
                                allPackets s' ! i =
                                  (?ps ! i)\<lparr>reveal := Some (ZK (redactedPlaintext b))\<rparr>))))"
    proof (cases toReveal)
      case RevealAll
      with g all show ?thesis by simp
    next
      case (RevealBlocks bs)
      with g blk [OF RevealBlocks] show ?thesis by blast
    qed
    with v show ?thesis by blast
  qed
  from len none some show ?thesis by blast
qed

theorem server_records_witness:
  "\<exists>s'. finish (Some noSlices) revealGivenBlocks prepareAsIs acceptFinalise handshakeSession
          = (Inr (), s')
   \<and> map reveal (allPackets s') =
     [None, None, None, Some Complete, Some Complete, None, None, Some (ZK ''200 OK'')]
   \<and> length (allPackets s') = length (allPackets handshakeSession)
   \<and> (Some noSlices = None \<longrightarrow>
        (\<forall>i<length (allPackets handshakeSession). sender (allPackets handshakeSession ! i) = SERVER \<longrightarrow>
           allPackets s' ! i = (allPackets handshakeSession ! i)\<lparr>reveal := Some Complete\<rparr>))
   \<and> (\<forall>f. Some noSlices = Some f \<longrightarrow>
        (\<exists>v blocks. metadata handshakeSession = Some v
           \<and> blocks = map (\<lambda>i. (if v = TLS1_3 then butlast (ctxPlaintext (ctx (allPackets handshakeSession ! i)))
                                  else ctxPlaintext (ctx (allPackets handshakeSession ! i)), i))
                        (filter (\<lambda>i. sender (allPackets handshakeSession ! i) = SERVER
                                   \<and> isApplicationData (Some v) (allPackets handshakeSession ! i) = Inr True)
                           [0..<length (allPackets handshakeSession)])
           \<and> (revealGivenBlocks blocks f = Inr RevealAll
                \<and> (\<forall>i<length (allPackets handshakeSession). sender (allPackets handshakeSession ! i) = SERVER \<longrightarrow>
                      allPackets s' ! i = (allPackets handshakeSession ! i)\<lparr>reveal := Some Complete\<rparr>)
              \<or> (\<exists>bs. revealGivenBlocks blocks f = Inr (RevealBlocks bs)
                    \<and> (\<forall>i<length (allPackets handshakeSession). sender (allPackets handshakeSession ! i) = SERVER \<longrightarrow>
                          (i \<notin> snd ` block ` set bs \<longrightarrow> allPackets s' ! i = allPackets handshakeSession ! i)
                        \<and> (i \<in> snd ` block ` set bs \<longrightarrow>
                             (\<exists>b\<in>set bs. snd (block b) = i \<and>
                                allPackets s' ! i =
                                  (allPackets handshakeSession ! i)\<lparr>reveal := Some (ZK (redactedPlaintext b))\<rparr>)))))))"
  using server_records_revealed_at_finish [OF finished_run] finished_run finished_packets
  by (intro exI [of _ finishedSession]) blast

text \<open>
  Claim C4 as stated fails when \<open>getBlocksToReveal\<close> answers \<open>'all'\<close>, the value its
  result variable is declared with: a function is supplied, and the server's
  application-data record is marked \<open>Complete\<close>, neither \<open>ZK\<close> nor left without a
  decision.
\<close>

theorem supplied_function_answer_all_reveals_completely:
  "fst (finish (Some noSlices) answerAll prepareAsIs acceptFinalise handshakeSession) = Inr ()
   \<and> sender (allPackets handshakeSession ! 7) = SERVER
   \<and> isApplicationData (metadata handshakeSession) (allPackets handshakeSession ! 7) = Inr True
   \<and> reveal (allPackets handshakeSession ! 7) = None
   \<and> reveal (allPackets (snd (finish (Some noSlices) answerAll prepareAsIs acceptFinalise
        handshakeSession)) ! 7) = Some Complete"
  by code_simp

section \<open>Client handshake records at finish\<close>

lemma revealGivenBlocks_sound:
  "revealGivenBlocks blocks f = Inr (RevealBlocks bs) \<Longrightarrow> \<forall>b\<in>set bs. block b \<in> set blocks"
  by (auto simp: revealGivenBlocks_def)

lemma finish_client_records:
  assumes "finish redactResponse getBlocksToReveal preparePacketsForReveal finaliseSession s
             = (Inr result, s')"
    and "\<And>blocks f bs. getBlocksToReveal blocks f = Inr (RevealBlocks bs)
            \<Longrightarrow> \<forall>b\<in>set bs. block b \<in> set blocks"
  shows "length (allPackets s') = length (allPackets s)
   \<and> (\<forall>i<length (allPackets s). sender (allPackets s ! i) = CLIENT \<longrightarrow>
        allPackets s' ! i =
          (if \<exists>j\<le>i. sender (allPackets s ! j) = CLIENT
                     \<and> isApplicationData (metadata s) (allPackets s ! j) = Inr True
           then allPackets s ! i
           else (case ctx (allPackets s ! i) of
                   plaintext_ctx \<Rightarrow> allPackets s ! i
                 | ciphertext_ctx pt ct \<Rightarrow>
                     (allPackets s ! i)\<lparr>reveal :=
                        Some (if defaultWriteRedactionMode s = Zk then ZK pt else Complete)\<rparr>)))"
proof -
  let ?ps = "allPackets s"
  from finish_Inr [OF assms(1)] obtain v toReveal ps1 where
    v: "metadata s = Some v"
    and tr: "case redactResponse of
          None \<Rightarrow> toReveal = RevealAll
        | Some f \<Rightarrow> (\<exists>blocks. serverBlocksFrom (Some v) 0 ?ps = Inr blocks
                        \<and> getBlocksToReveal blocks f = Inr toReveal)"
    and ph1: "(case toReveal of
          RevealAll \<Rightarrow> (None, revealAllServer ?ps)
        | RevealBlocks bs \<Rightarrow> revealBlocks bs ?ps) = (None, ps1)"
    and ph2: "revealHandshake (Some v) (defaultWriteRedactionMode s) ps1 = (None, allPackets s')"
    by blast
  \<comment> \<open>the server phase changes reveal fields only, and none of a client packet\<close>
  have p1: "length ps1 = length ?ps \<and>
      (\<forall>i<length ?ps. (\<exists>rv. ps1 ! i = (?ps ! i)\<lparr>reveal := rv\<rparr>)
           \<and> (sender (?ps ! i) = CLIENT \<longrightarrow> ps1 ! i = ?ps ! i))"
  proof (cases toReveal)
    case RevealAll
    with ph1 have e: "ps1 = revealAllServer ?ps" by simp
    have "(\<exists>rv. ps1 ! i = (?ps ! i)\<lparr>reveal := rv\<rparr>)
           \<and> (sender (?ps ! i) = CLIENT \<longrightarrow> ps1 ! i = ?ps ! i)" if "i < length ?ps" for i
    proof (cases "sender (?ps ! i) = SERVER")
      case True
      with that have "ps1 ! i = (?ps ! i)\<lparr>reveal := Some Complete\<rparr>"
        by (simp add: e revealAllServer_nth)
      with True show ?thesis by auto
    next
      case False
      with that have "ps1 ! i = (?ps ! i)\<lparr>reveal := reveal (?ps ! i)\<rparr>"
        by (simp add: e revealAllServer_nth)
      then show ?thesis by (metis CompleteTLSPacket.surjective CompleteTLSPacket.update_convs(5))
    qed
    then show ?thesis by (simp add: e revealAllServer_nth)
  next
    case (RevealBlocks bs)
    with ph1 have "revealBlocks bs ?ps = (None, ps1)" by simp
    from revealBlocks_None [OF this] have l: "length ps1 = length ?ps"
      and out: "\<And>i. i < length ?ps \<Longrightarrow> i \<notin> snd ` block ` set bs \<Longrightarrow> ps1 ! i = ?ps ! i"
      and inn: "\<And>i. i < length ?ps \<Longrightarrow> i \<in> snd ` block ` set bs \<Longrightarrow>
           \<exists>b\<in>set bs. snd (block b) = i \<and>
              ps1 ! i = (?ps ! i)\<lparr>reveal := Some (ZK (redactedPlaintext b))\<rparr>"
      by simp_all
    from tr RevealBlocks obtain f blocks where
      sb: "serverBlocksFrom (Some v) 0 ?ps = Inr blocks"
      and g: "getBlocksToReveal blocks f = Inr (RevealBlocks bs)"
      by (cases redactResponse) auto
    from assms(2) [OF g] have mem: "\<And>b. b \<in> set bs \<Longrightarrow> block b \<in> set blocks" by blast
    have srv: "sender (?ps ! i) = SERVER" if "i \<in> snd ` block ` set bs" for i
    proof -
      from that obtain b where b: "b \<in> set bs" "snd (block b) = i" by auto
      from mem [OF b(1)] sb b(2) show ?thesis
        by (auto simp: serverBlocksFrom_Some)
    qed
    have "(\<exists>rv. ps1 ! i = (?ps ! i)\<lparr>reveal := rv\<rparr>)
           \<and> (sender (?ps ! i) = CLIENT \<longrightarrow> ps1 ! i = ?ps ! i)" if i: "i < length ?ps" for i
    proof (cases "i \<in> snd ` block ` set bs")
      case True
      from inn [OF i True] srv [OF True] show ?thesis by auto
    next
      case False
      from out [OF i False] have "ps1 ! i = ?ps ! i" .
      moreover have "?ps ! i = (?ps ! i)\<lparr>reveal := reveal (?ps ! i)\<rparr>" by simp
      ultimately show ?thesis by metis
    qed
    with l show ?thesis by simp
  qed
  then have l1: "length ps1 = length ?ps"
    and same: "\<And>i. i < length ?ps \<Longrightarrow> \<exists>rv. ps1 ! i = (?ps ! i)\<lparr>reveal := rv\<rparr>"
    and cl: "\<And>i. i < length ?ps \<Longrightarrow> sender (?ps ! i) = CLIENT \<Longrightarrow> ps1 ! i = ?ps ! i"
    by simp_all
  have cad: "clientAppData (Some v) (ps1 ! j) = clientAppData (Some v) (?ps ! j)"
    if "j < length ?ps" for j
  proof -
    from same [OF that] obtain rv where "ps1 ! j = (?ps ! j)\<lparr>reveal := rv\<rparr>" by blast
    then show ?thesis by (simp add: clientAppData_def)
  qed
  from revealHandshake_None [OF ph2] have l2: "length (allPackets s') = length ps1"
    and nth2: "\<And>i. i < length ps1 \<Longrightarrow> allPackets s' ! i =
        (if sender (ps1 ! i) = CLIENT \<and> \<not> (\<exists>j\<le>i. clientAppData (Some v) (ps1 ! j))
         then handshakeMark (defaultWriteRedactionMode s) (ps1 ! i) else ps1 ! i)"
    by simp_all
  have "allPackets s' ! i =
          (if \<exists>j\<le>i. sender (?ps ! j) = CLIENT
                     \<and> isApplicationData (metadata s) (?ps ! j) = Inr True
           then ?ps ! i
           else (case ctx (?ps ! i) of
                   plaintext_ctx \<Rightarrow> ?ps ! i
                 | ciphertext_ctx pt ct \<Rightarrow>
                     (?ps ! i)\<lparr>reveal :=
                        Some (if defaultWriteRedactionMode s = Zk then ZK pt else Complete)\<rparr>))"
    if i: "i < length ?ps" and c: "sender (?ps ! i) = CLIENT" for i
  proof -
    have e: "ps1 ! i = ?ps ! i" using cl [OF i c] .
    have q: "(\<exists>j\<le>i. clientAppData (Some v) (ps1 ! j))
          \<longleftrightarrow> (\<exists>j\<le>i. sender (?ps ! j) = CLIENT
                     \<and> isApplicationData (metadata s) (?ps ! j) = Inr True)"
    proof -
      have "clientAppData (Some v) (ps1 ! j) \<longleftrightarrow>
          sender (?ps ! j) = CLIENT \<and> isApplicationData (metadata s) (?ps ! j) = Inr True"
        if "j \<le> i" for j
      proof -
        from that i have "j < length ?ps" by simp
        from cad [OF this] show ?thesis by (simp add: clientAppData_def v)
      qed
      then show ?thesis by blast
    qed
    from nth2 [of i] i l1 have "allPackets s' ! i =
        (if sender (ps1 ! i) = CLIENT \<and> \<not> (\<exists>j\<le>i. clientAppData (Some v) (ps1 ! j))
         then handshakeMark (defaultWriteRedactionMode s) (ps1 ! i) else ps1 ! i)" by simp
    then have r: "allPackets s' ! i =
        (if \<not> (\<exists>j\<le>i. sender (?ps ! j) = CLIENT
                     \<and> isApplicationData (metadata s) (?ps ! j) = Inr True)
         then handshakeMark (defaultWriteRedactionMode s) (?ps ! i) else ?ps ! i)"
      unfolding q e using c by (simp only: simp_thms)
    show ?thesis
    proof (cases "\<exists>j\<le>i. sender (?ps ! j) = CLIENT
                     \<and> isApplicationData (metadata s) (?ps ! j) = Inr True")
      case True
      with r show ?thesis by (simp only: simp_thms if_True if_False)
    next
      case False
      with r have "allPackets s' ! i = handshakeMark (defaultWriteRedactionMode s) (?ps ! i)"
        by (simp only: simp_thms if_True if_False)
      with False show ?thesis
        by (simp only: simp_thms if_True if_False handshakeMark_def)
    qed
  qed
  with l1 l2 show ?thesis by simp
qed

text \<open>
  Claim C3. When \<open>finish\<close> returns, the transcript has the same records in the same
  order, and for each client record: if no client application-data record stands at
  or before it, a ciphertext record has the decision \<open>Complete\<close>, or in zk mode \<open>ZK\<close>
  with the record's whole plaintext, and a plaintext record is unchanged; from the
  first client application-data record on, every client record is exactly as it was
  before \<open>finish\<close>. \<open>getBlocksToReveal\<close> is generic in the block type and can only
  hand back blocks it was given; this is the second hypothesis.
\<close>

theorem client_handshake_revealed_until_first_application_data:
  assumes "finish redactResponse getBlocksToReveal preparePacketsForReveal finaliseSession s
             = (Inr result, s')"
    and "\<And>blocks f bs. getBlocksToReveal blocks f = Inr (RevealBlocks bs)
            \<Longrightarrow> \<forall>b\<in>set bs. block b \<in> set blocks"
  shows "length (allPackets s') = length (allPackets s)
   \<and> (\<forall>i<length (allPackets s). sender (allPackets s ! i) = CLIENT \<longrightarrow>
        allPackets s' ! i =
          (if \<exists>j\<le>i. sender (allPackets s ! j) = CLIENT
                     \<and> isApplicationData (metadata s) (allPackets s ! j) = Inr True
           then allPackets s ! i
           else (case ctx (allPackets s ! i) of
                   plaintext_ctx \<Rightarrow> allPackets s ! i
                 | ciphertext_ctx pt ct \<Rightarrow>
                     (allPackets s ! i)\<lparr>reveal :=
                        Some (if defaultWriteRedactionMode s = Zk then ZK pt else Complete)\<rparr>)))"
  by (rule finish_client_records [OF assms(1)]) (erule assms(2))

theorem client_handshake_witness:
  "\<exists>s'. finish (Some noSlices) revealGivenBlocks prepareAsIs acceptFinalise handshakeSession
          = (Inr (), s')
   \<and> map reveal (allPackets s') =
     [None, None, None, Some Complete, Some Complete, None, None, Some (ZK ''200 OK'')]
   \<and> length (allPackets s') = length (allPackets handshakeSession)
   \<and> (\<forall>i<length (allPackets handshakeSession). sender (allPackets handshakeSession ! i) = CLIENT \<longrightarrow>
        allPackets s' ! i =
          (if \<exists>j\<le>i. sender (allPackets handshakeSession ! j) = CLIENT
                     \<and> isApplicationData (metadata handshakeSession) (allPackets handshakeSession ! j) = Inr True
           then allPackets handshakeSession ! i
           else (case ctx (allPackets handshakeSession ! i) of
                   plaintext_ctx \<Rightarrow> allPackets handshakeSession ! i
                 | ciphertext_ctx pt ct \<Rightarrow>
                     (allPackets handshakeSession ! i)\<lparr>reveal :=
                        Some (if defaultWriteRedactionMode handshakeSession = Zk then ZK pt else Complete)\<rparr>)))"
proof -
  have "length (allPackets finishedSession) = length (allPackets handshakeSession)
   \<and> (\<forall>i<length (allPackets handshakeSession). sender (allPackets handshakeSession ! i) = CLIENT \<longrightarrow>
        allPackets finishedSession ! i =
          (if \<exists>j\<le>i. sender (allPackets handshakeSession ! j) = CLIENT
                     \<and> isApplicationData (metadata handshakeSession) (allPackets handshakeSession ! j) = Inr True
           then allPackets handshakeSession ! i
           else (case ctx (allPackets handshakeSession ! i) of
                   plaintext_ctx \<Rightarrow> allPackets handshakeSession ! i
                 | ciphertext_ctx pt ct \<Rightarrow>
                     (allPackets handshakeSession ! i)\<lparr>reveal :=
                        Some (if defaultWriteRedactionMode handshakeSession = Zk then ZK pt else Complete)\<rparr>)))"
    by (rule client_handshake_revealed_until_first_application_data [OF finished_run])
       (erule revealGivenBlocks_sound)
  with finished_run finished_packets show ?thesis
    by (intro exI [of _ finishedSession]) blast
qed

section \<open>Key-update writes\<close>


lemma holdsSecret_reveal [simp]: "holdsSecret sections (p\<lparr>reveal := rv\<rparr>) = holdsSecret sections p"
  by (simp add: holdsSecret_def)

lemma applicationDataRecord_reveal [simp]:
  "applicationDataRecord (p\<lparr>reveal := rv\<rparr>) = applicationDataRecord p"
  by (simp add: applicationDataRecord_def)









section \<open>Growth of the transcript\<close>

lemma indicesOf_append [simp]: "indicesOf sd (xs @ ys) = indicesOf sd xs @ indicesOf sd ys"
  by (simp add: indicesOf_def)

lemma indicesOf_Nil [simp]: "indicesOf sd [] = []"
  by (simp add: indicesOf_def)

lemma indicesOf_single [simp]: "indicesOf sd [p] = (if sender p = sd then [index p] else [])"
  by (simp add: indicesOf_def)

lemma growth_refl: "relay s' = relay s \<Longrightarrow> allPackets s' = allPackets s \<Longrightarrow> growth hi [] s s'"
  by (simp add: growth_def)

lemma growth_trans:
  assumes "growth hi a s s1" and "growth hi b s1 s2"
  shows "growth hi (a @ b) s s2"
proof -
  from assms(1) obtain n1 where h1: "hi (relay s) \<le> hi (relay s1)"
    and n1: "allPackets s1 = allPackets s @ n1" "indicesOf SERVER n1 = a"
      "sorted_wrt (<) (indicesOf CLIENT n1)"
      "\<forall>i\<in>set (indicesOf CLIENT n1). hi (relay s) < i \<and> i \<le> hi (relay s1)"
    unfolding growth_def by blast
  from assms(2) obtain n2 where h2: "hi (relay s1) \<le> hi (relay s2)"
    and n2: "allPackets s2 = allPackets s1 @ n2" "indicesOf SERVER n2 = b"
      "sorted_wrt (<) (indicesOf CLIENT n2)"
      "\<forall>i\<in>set (indicesOf CLIENT n2). hi (relay s1) < i \<and> i \<le> hi (relay s2)"
    unfolding growth_def by blast
  have "allPackets s2 = allPackets s @ (n1 @ n2)" using n1(1) n2(1) by simp
  moreover have "indicesOf SERVER (n1 @ n2) = a @ b" using n1(2) n2(2) by simp
  moreover have "sorted_wrt (<) (indicesOf CLIENT (n1 @ n2))"
    using n1(3,4) n2(3,4) by (fastforce simp: sorted_wrt_append)
  moreover have "\<forall>i\<in>set (indicesOf CLIENT (n1 @ n2)). hi (relay s) < i \<and> i \<le> hi (relay s2)"
    using n1(4) n2(4) h1 h2 by fastforce
  moreover have "hi (relay s) \<le> hi (relay s2)" using h1 h2 by simp
  ultimately show ?thesis unfolding growth_def by blast
qed

lemma growth_andThen:
  assumes "\<And>s. growth hi [] s (snd (m s))" and "\<And>x s. growth hi [] s (snd (f x s))"
  shows "growth hi [] s (snd (andThen m f s))"
proof (cases "m s")
  case (Pair r s1)
  with assms(1) [of s] have g1: "growth hi [] s s1" by simp
  show ?thesis
  proof (cases r)
    case (Inl e)
    with Pair g1 show ?thesis by (simp add: andThen_def)
  next
    case (Inr x)
    from growth_trans [OF g1 assms(2) [of s1 x]] Pair Inr show ?thesis
      by (simp add: andThen_def)
  qed
qed

lemma growth_skip: "growth hi [] s (snd (skip s))"
  by (simp add: skip_def growth_refl)

lemma relayIncreasingD:
  assumes "relayIncreasing hi pushToSession" and "pushToSession r sid pkt = (res, r')"
  shows "case res of Inl e \<Rightarrow> hi r \<le> hi r' | Inr idx \<Rightarrow> hi r < idx \<and> idx \<le> hi r'"
proof -
  from assms(1) have "case pushToSession r sid pkt of
                     (Inl e, r') \<Rightarrow> hi r \<le> hi r'
                   | (Inr idx, r') \<Rightarrow> hi r < idx \<and> idx \<le> hi r'"
    unfolding relayIncreasing_def by (elim allE)
  with assms(2) show ?thesis by (cases res) simp_all
qed

lemma growth_write_cb:
  assumes "relayIncreasing hi pushToSession"
  shows "growth hi [] s (snd (write_cb pushToSession pkt c s))"
proof (cases "noSession (sessionId s)")
  case True
  then show ?thesis by (simp add: write_cb_def growth_refl)
next
  case False
  obtain r r' where p: "pushToSession (relay s) (the (sessionId s)) pkt = (r, r')"
    by (cases "pushToSession (relay s) (the (sessionId s)) pkt")
  note ri = relayIncreasingD [OF assms p]
  show ?thesis
  proof (cases r)
    case (Inl e)
    with p ri False show ?thesis by (simp add: write_cb_def growth_def)
  next
    case (Inr idx)
    with ri have "hi (relay s) < idx" "idx \<le> hi r'" by simp_all
    with p Inr False show ?thesis by (simp add: write_cb_def growth_def)
  qed
qed

lemma growth_runCallbacks:
  assumes "relayIncreasing hi pushToSession"
  shows "growth hi [] s (snd (runCallbacks pushToSession cbs s))"
proof (induction cbs arbitrary: s)
  case Nil
  then show ?case by (simp add: growth_skip)
next
  case (Cons cb cbs)
  show ?case
  proof (cases cb)
    case (CbWrite pkt c)
    show ?thesis
      unfolding CbWrite runCallbacks.simps
      by (rule growth_andThen) (simp_all add: growth_write_cb [OF assms] Cons.IH)
  next
    case (CbHandshake v)
    show ?thesis
      unfolding CbHandshake runCallbacks.simps
      by (rule growth_andThen) (simp_all add: onHandshake_def growth_refl Cons.IH)
  next
    case (CbApplicationData d)
    then show ?thesis by (simp add: Cons.IH)
  qed
qed

lemma throwIf_Inr: "throwIf eo s = (Inr u, s') \<longleftrightarrow> eo = None \<and> s' = s"
  by (auto simp: throwIf_def skip_def throw_def split: option.splits)

lemma indicesOf_empty: "indicesOf sd xs = [] \<longleftrightarrow> (\<forall>q\<in>set xs. sender q \<noteq> sd)"
  by (simp add: indicesOf_def filter_empty_conv)

lemma getLastBlock_tail:
  "sender p = sd \<Longrightarrow> \<forall>q\<in>set qs. sender q \<noteq> sd \<Longrightarrow> getLastBlock sd (ps @ p # qs) = Some (length ps)"
proof (induction qs rule: rev_induct)
  case Nil
  then show ?case by (simp add: getLastBlock_snoc)
next
  case (snoc q qs)
  have "getLastBlock sd ((ps @ p # qs) @ [q]) = getLastBlock sd (ps @ p # qs)"
    using snoc.prems(2) by (simp only: getLastBlock_snoc) simp
  with snoc show ?case by simp
qed

lemma growth_throwIf: "growth hi [] s (snd (throwIf eo s))"
  by (simp add: throwIf_def skip_def throw_def growth_refl split: option.splits)

lemma growth_onReady:
  assumes "relayIncreasing hi pushToSession"
    and "onReady pushToSession rx s = (Inr (), s1)"
  shows "growth hi [] s s1"
proof -
  have "growth hi [] s (snd (tls_startHandshake pushToSession rx s))"
    unfolding tls_startHandshake_def
    by (rule growth_andThen) (simp_all add: growth_runCallbacks [OF assms(1)] growth_throwIf)
  with assms(2) show ?thesis by (simp add: onReady_def)
qed

lemma growth_receive:
  assumes "relayIncreasing hi pushToSession"
    and "tls_handleReceivedPacket pushToSession pkt rx s = (Inr (), s1)"
    and "setLastIndex SERVER idx s1 = (Inr (), s2)"
  shows "growth hi [idx] s s2"
proof -
  let ?srv = "\<lparr>packet = pkt, ctx = readCtx rx, sender = SERVER, index = - 1, reveal = None\<rparr>"
  let ?s0 = "s\<lparr>allPackets := allPackets s @ [?srv]\<rparr>"
  from assms(2) have run: "runCallbacks pushToSession (callbacks rx) ?s0 = (Inr (), s1)"
    by (auto simp: tls_handleReceivedPacket_def andThen_Inr throwIf_Inr onRead_def)
  with growth_runCallbacks [OF assms(1), of ?s0 "callbacks rx"]
  obtain news where h: "hi (relay s) \<le> hi (relay s1)"
    and n: "allPackets s1 = (allPackets s @ [?srv]) @ news" "indicesOf SERVER news = []"
      "sorted_wrt (<) (indicesOf CLIENT news)"
      "\<forall>i\<in>set (indicesOf CLIENT news). hi (relay s) < i \<and> i \<le> hi (relay s1)"
    unfolding growth_def by auto
  from n(2) have nosrv: "\<forall>q\<in>set news. sender q \<noteq> SERVER" by (simp add: indicesOf_empty)
  have ap: "allPackets s1 = allPackets s @ ?srv # news" using n(1) by simp
  have g: "getLastBlock SERVER (allPackets s1) = Some (length (allPackets s))"
    unfolding ap by (rule getLastBlock_tail) (simp_all add: nosrv)
  from assms(3) g have s2: "s2 = s1\<lparr>allPackets :=
      (allPackets s1)[length (allPackets s) := (allPackets s1 ! length (allPackets s))\<lparr>index := idx\<rparr>]\<rparr>"
    by (simp add: setLastIndex_def)
  have ap2: "allPackets s2 = allPackets s @ (?srv\<lparr>index := idx\<rparr>) # news"
    unfolding s2 by (simp add: ap list_update_append)
  have "indicesOf SERVER ((?srv\<lparr>index := idx\<rparr>) # news) = [idx]"
    using n(2) by (simp add: indicesOf_def)
  moreover have "indicesOf CLIENT ((?srv\<lparr>index := idx\<rparr>) # news) = indicesOf CLIENT news"
    by (simp add: indicesOf_def)
  moreover have "relay s2 = relay s1" by (simp add: s2)
  ultimately show ?thesis
    unfolding growth_def using ap2 h n(3,4) by auto
qed

lemma streamIndices_Cons:
  "streamIndices ((res, rx) # rest) =
     (if readyMarker res then streamIndices rest else pull_index res # streamIndices rest)"
  by (simp add: streamIndices_def)

lemma growth_pullLoop:
  assumes "relayIncreasing hi pushToSession"
    and "pullLoop pushToSession result ending s = (Inr (), s')"
  shows "growth hi (streamIndices result) s s'"
  using assms(2)
proof (induction result arbitrary: s)
  case Nil
  then show ?case by (simp add: throwIf_Inr streamIndices_def growth_refl)
next
  case (Cons a rest)
  obtain res rx where a: "a = (res, rx)" by (cases a)
  show ?case
  proof (cases "readyMarker res")
    case True
    with Cons.prems a obtain s1 where
      h: "onReady pushToSession rx s = (Inr (), s1)"
      and l: "pullLoop pushToSession rest ending s1 = (Inr (), s')"
      by (auto simp: andThen_Inr)
    from growth_trans [OF growth_onReady [OF assms(1) h] Cons.IH [OF l]] True a
    show ?thesis by (simp add: streamIndices_Cons)
  next
    case False
    with Cons.prems a obtain s1 s2 where
      h: "tls_handleReceivedPacket pushToSession (the (pull_message res)) rx s = (Inr (), s1)"
      and i: "setLastIndex SERVER (pull_index res) s1 = (Inr (), s2)"
      and l: "pullLoop pushToSession rest ending s2 = (Inr (), s')"
      by (auto simp: andThen_Inr)
    from growth_trans [OF growth_receive [OF assms(1) h i] Cons.IH [OF l]] False a
    show ?thesis by (simp add: streamIndices_Cons)
  qed
qed

lemma growth_ordered:
  assumes "growth hi srv s s'" and "transcriptOrdered hi s"
    and "sorted_wrt (<) (indicesOf SERVER (allPackets s) @ srv)"
  shows "transcriptOrdered hi s'"
    and "indicesOf SERVER (allPackets s') = indicesOf SERVER (allPackets s) @ srv"
    and "indicesOf CLIENT (allPackets s) = take (length (indicesOf CLIENT (allPackets s))) (indicesOf CLIENT (allPackets s'))"
    and "\<exists>news. allPackets s' = allPackets s @ news"
proof -
  from assms(1) obtain news where h: "hi (relay s) \<le> hi (relay s')"
    and n: "allPackets s' = allPackets s @ news" "indicesOf SERVER news = srv"
      "sorted_wrt (<) (indicesOf CLIENT news)"
      "\<forall>i\<in>set (indicesOf CLIENT news). hi (relay s) < i \<and> i \<le> hi (relay s')"
    unfolding growth_def by blast
  from assms(2) have c: "sorted_wrt (<) (indicesOf CLIENT (allPackets s))"
    and b: "\<forall>i\<in>set (indicesOf CLIENT (allPackets s)). i \<le> hi (relay s)"
    by (simp_all add: transcriptOrdered_def)
  have "sorted_wrt (<) (indicesOf CLIENT (allPackets s'))"
    using c b n(3,4) by (fastforce simp: n(1) sorted_wrt_append)
  moreover have "\<forall>i\<in>set (indicesOf CLIENT (allPackets s')). i \<le> hi (relay s')"
    using b n(4) h by (fastforce simp: n(1))
  moreover show sv: "indicesOf SERVER (allPackets s') = indicesOf SERVER (allPackets s) @ srv"
    by (simp add: n(1,2))
  ultimately show "transcriptOrdered hi s'"
    using assms(3) by (simp add: transcriptOrdered_def)
  show "indicesOf CLIENT (allPackets s) = take (length (indicesOf CLIENT (allPackets s))) (indicesOf CLIENT (allPackets s'))"
    by (simp add: n(1))
  from n(1) show "\<exists>news. allPackets s' = allPackets s @ news" by blast
qed

lemma countingRelay_increasing: "relayIncreasing counterBound countingRelay"
  by (simp add: relayIncreasing_def countingRelay_def counterBound_def)

lemma demoSession_ordered: "transcriptOrdered counterBound (demoSession :: (char, nat) session)"
  by (simp add: transcriptOrdered_def demoSession_def)

lemma demo_pull_run:
  "fst (pullLoop countingRelay demoStream None (demoSession :: (char, nat) session)) = Inr ()"
  by code_simp

lemma demo_pull_indices:
  "indicesOf SERVER (allPackets (demoSession :: (char, nat) session)) @ streamIndices demoStream = [1, 2]"
  by code_simp

section \<open>Growth by client records\<close>

lemma indicesOf_unrevealed [simp]: "indicesOf sd (unrevealed ps) = indicesOf sd ps"
  by (induction ps) (simp_all add: indicesOf_def unrevealed_def)

lemma unrevealed_append [simp]: "unrevealed (xs @ ys) = unrevealed xs @ unrevealed ys"
  by (simp add: unrevealed_def)

lemma unrevealed_mark:
  "unrevealed (ps[i := (ps ! i)\<lparr>reveal := rv\<rparr>]) = unrevealed ps"
  by (cases "i < length ps")
     (simp_all add: unrevealed_def map_update list_update_same_conv list_update_beyond not_less)

lemma clientGrowth_refl:
  "relay s' = relay s \<Longrightarrow> unrevealed (allPackets s') = unrevealed (allPackets s) \<Longrightarrow> clientGrowth hi s s'"
  by (simp add: clientGrowth_def)

lemma clientGrowth_trans:
  assumes "clientGrowth hi s s1" and "clientGrowth hi s1 s2"
  shows "clientGrowth hi s s2"
proof -
  from assms(1) obtain n1 where h1: "hi (relay s) \<le> hi (relay s1)"
    and n1: "unrevealed (allPackets s1) = unrevealed (allPackets s) @ n1"
      "\<forall>p\<in>set n1. sender p = CLIENT" "sorted_wrt (<) (indicesOf CLIENT n1)"
      "\<forall>i\<in>set (indicesOf CLIENT n1). hi (relay s) < i \<and> i \<le> hi (relay s1)"
    unfolding clientGrowth_def by blast
  from assms(2) obtain n2 where h2: "hi (relay s1) \<le> hi (relay s2)"
    and n2: "unrevealed (allPackets s2) = unrevealed (allPackets s1) @ n2"
      "\<forall>p\<in>set n2. sender p = CLIENT" "sorted_wrt (<) (indicesOf CLIENT n2)"
      "\<forall>i\<in>set (indicesOf CLIENT n2). hi (relay s1) < i \<and> i \<le> hi (relay s2)"
    unfolding clientGrowth_def by blast
  have "unrevealed (allPackets s2) = unrevealed (allPackets s) @ (n1 @ n2)" using n1(1) n2(1) by simp
  moreover have "\<forall>p\<in>set (n1 @ n2). sender p = CLIENT" using n1(2) n2(2) by auto
  moreover have "sorted_wrt (<) (indicesOf CLIENT (n1 @ n2))"
    using n1(3,4) n2(3,4) by (fastforce simp: sorted_wrt_append)
  moreover have "\<forall>i\<in>set (indicesOf CLIENT (n1 @ n2)). hi (relay s) < i \<and> i \<le> hi (relay s2)"
    using n1(4) n2(4) h1 h2 by fastforce
  moreover have "hi (relay s) \<le> hi (relay s2)" using h1 h2 by simp
  ultimately show ?thesis unfolding clientGrowth_def by blast
qed

lemma clientGrowth_andThen:
  assumes "\<And>s. clientGrowth hi s (snd (m s))" and "\<And>x s. clientGrowth hi s (snd (f x s))"
  shows "clientGrowth hi s (snd (andThen m f s))"
proof (cases "m s")
  case (Pair r s1)
  with assms(1) [of s] have g1: "clientGrowth hi s s1" by simp
  show ?thesis
  proof (cases r)
    case (Inl e)
    with Pair g1 show ?thesis by (simp add: andThen_def)
  next
    case (Inr x)
    from clientGrowth_trans [OF g1 assms(2) [of s1 x]] Pair Inr show ?thesis
      by (simp add: andThen_def)
  qed
qed

lemma growth_clientGrowth:
  assumes "growth hi [] s s'"
  shows "clientGrowth hi s s'"
proof -
  from assms obtain news where h: "hi (relay s) \<le> hi (relay s')"
    and n: "allPackets s' = allPackets s @ news" "indicesOf SERVER news = []"
      "sorted_wrt (<) (indicesOf CLIENT news)"
      "\<forall>i\<in>set (indicesOf CLIENT news). hi (relay s) < i \<and> i \<le> hi (relay s')"
    unfolding growth_def by blast
  have c: "sender p = CLIENT" if "p \<in> set (unrevealed news)" for p
  proof -
    from that obtain q where q: "q \<in> set news" "p = q\<lparr>reveal := None\<rparr>"
      by (auto simp: unrevealed_def)
    from n(2) q(1) have "sender q \<noteq> SERVER" by (simp add: indicesOf_def filter_empty_conv)
    with q(2) show ?thesis by (cases "sender q") simp_all
  qed
  show ?thesis
    unfolding clientGrowth_def
    using h n c by (intro conjI exI [of _ "unrevealed news"]) simp_all
qed

lemma clientGrowth_skip: "clientGrowth hi s (snd (skip s))"
  by (simp add: skip_def clientGrowth_refl)

lemma clientGrowth_setLastReveal: "clientGrowth hi s (snd (setLastReveal sd rv s))"
  by (auto simp: setLastReveal_def unrevealed_mark intro: clientGrowth_refl split: option.splits)

lemma clientGrowth_writeEncryptedPacket:
  assumes "relayIncreasing hi pushToSession"
  shows "clientGrowth hi s (snd (writeEncryptedPacket eng pushToSession ct piece s))"
  unfolding writeEncryptedPacket_def
  by (rule growth_clientGrowth) (rule growth_write_cb [OF assms])

lemma clientGrowth_writePieces:
  assumes "relayIncreasing hi pushToSession"
  shows "clientGrowth hi s (snd (writePieces eng pushToSession ct ps s))"
proof (induction ps arbitrary: s)
  case Nil
  then show ?case by (simp add: clientGrowth_skip)
next
  case (Cons piece rest)
  show ?case
    unfolding writePieces.simps
    by (rule clientGrowth_andThen) (simp_all add: clientGrowth_writeEncryptedPacket [OF assms] Cons.IH)
qed

lemma clientGrowth_updateTrafficKeys:
  assumes "relayIncreasing hi pushToSession"
  shows "clientGrowth hi s (snd (tls_updateTrafficKeys eng pushToSession s))"
  unfolding tls_updateTrafficKeys_def
  by (rule clientGrowth_andThen)
     (simp_all add: clientGrowth_writeEncryptedPacket [OF assms] clientGrowth_refl)

lemma clientGrowth_writeWithReveal:
  assumes "relayIncreasing hi pushToSession"
  shows "clientGrowth hi s (snd (writeWithReveal eng pushToSession d rv s))"
  unfolding writeWithReveal_def tls_write_def
  by (intro clientGrowth_andThen)
     (simp_all add: clientGrowth_updateTrafficKeys [OF assms] clientGrowth_writePieces [OF assms]
        clientGrowth_setLastReveal clientGrowth_skip)

lemma clientGrowth_writeSections:
  assumes "relayIncreasing hi pushToSession"
  shows "clientGrowth hi s (snd (writeSections eng pushToSession d cur sections s))"
proof (induction sections arbitrary: cur s)
  case Nil
  then show ?case by (simp add: clientGrowth_skip)
next
  case (Cons sec rest)
  show ?case
    unfolding writeSections.simps
    by (intro clientGrowth_andThen)
       (simp_all add: clientGrowth_writeWithReveal [OF assms] clientGrowth_skip Cons.IH)
qed

lemma clientGrowth_write_op:
  assumes "relayIncreasing hi pushToSession"
  shows "clientGrowth hi s (snd (write_op eng pushToSession filler d sections s))"
proof (cases "defaultWriteRedactionMode s = KeyUpdate")
  case True
  have "clientGrowth hi s (snd (writeRedactedWithKeyUpdate eng pushToSession d sections s))"
    unfolding writeRedactedWithKeyUpdate_def
    by (intro clientGrowth_andThen)
       (simp_all add: clientGrowth_writeWithReveal [OF assms] clientGrowth_skip
          clientGrowth_writeSections [OF assms])
  with True show ?thesis by (simp add: write_op_def)
next
  case False
  have "clientGrowth hi s (snd (writeRedactedZk eng pushToSession filler d sections s))"
    unfolding writeRedactedZk_def tls_write_def
    by (intro clientGrowth_andThen)
       (simp_all add: clientGrowth_writePieces [OF assms] clientGrowth_setLastReveal)
  with False show ?thesis by (simp add: write_op_def)
qed

lemma clientGrowth_ordered:
  assumes "clientGrowth hi s s'" and "transcriptOrdered hi s"
  shows "transcriptOrdered hi s'"
proof -
  from assms(1) obtain news where h: "hi (relay s) \<le> hi (relay s')"
    and n: "unrevealed (allPackets s') = unrevealed (allPackets s) @ news"
      "\<forall>p\<in>set news. sender p = CLIENT" "sorted_wrt (<) (indicesOf CLIENT news)"
      "\<forall>i\<in>set (indicesOf CLIENT news). hi (relay s) < i \<and> i \<le> hi (relay s')"
    unfolding clientGrowth_def by blast
  have ix: "indicesOf sd (allPackets s') = indicesOf sd (allPackets s) @ indicesOf sd news" for sd
  proof -
    have "indicesOf sd (allPackets s') = indicesOf sd (unrevealed (allPackets s'))" by simp
    also have "\<dots> = indicesOf sd (unrevealed (allPackets s)) @ indicesOf sd news"
      unfolding n(1) by simp
    finally show ?thesis by simp
  qed
  have sv: "indicesOf SERVER news = []"
    using n(2) by (auto simp: indicesOf_def filter_empty_conv)
  from assms(2) have c: "sorted_wrt (<) (indicesOf CLIENT (allPackets s))"
    and sr: "sorted_wrt (<) (indicesOf SERVER (allPackets s))"
    and b: "\<forall>i\<in>set (indicesOf CLIENT (allPackets s)). i \<le> hi (relay s)"
    by (simp_all add: transcriptOrdered_def)
  have "sorted_wrt (<) (indicesOf CLIENT (allPackets s'))"
    using c b n(3,4) by (fastforce simp: ix sorted_wrt_append)
  moreover have "\<forall>i\<in>set (indicesOf CLIENT (allPackets s')). i \<le> hi (relay s')"
    using b n(4) h by (fastforce simp: ix)
  moreover have "sorted_wrt (<) (indicesOf SERVER (allPackets s'))"
    using sr by (simp add: ix sv)
  ultimately show ?thesis by (simp add: transcriptOrdered_def)
qed

section \<open>The pull loop, whether it returns or throws\<close>

lemma growth_onRead:
  "growth hi [- 1] s (snd (onRead pkt c s))"
  by (simp add: onRead_def growth_def indicesOf_def)

lemma receive_any:
  assumes "relayIncreasing hi pushToSession"
    and "tls_handleReceivedPacket pushToSession pkt rx s = (r, s1)"
  shows "(\<exists>e. r = Inl e) \<and> (growth hi [] s s1 \<or> growth hi [- 1] s s1)
         \<or> r = Inr () \<and> (\<forall>idx. \<exists>s2. setLastIndex SERVER idx s1 = (Inr (), s2) \<and> growth hi [idx] s s2)"
proof (cases r)
  case (Inl e)
  from assms(2) have run: "andThen (throwIf (rejected rx)) (\<lambda>_.
     andThen (onRead pkt (readCtx rx)) (\<lambda>_.
     andThen (runCallbacks pushToSession (callbacks rx)) (\<lambda>_. throwIf (thrown rx)))) s = (r, s1)"
    by (simp add: tls_handleReceivedPacket_def)
  from run have "growth hi [] s s1 \<or> growth hi [- 1] s s1"
  proof (cases rule: andThen_cases)
    case (fail e')
    then have "s1 = s" by (auto simp: throwIf_def skip_def throw_def split: option.splits)
    then show ?thesis by (simp add: growth_refl)
  next
    case (cont x s0)
    then have s0: "s0 = s" by (auto simp: throwIf_def skip_def throw_def split: option.splits)
    let ?t = "s\<lparr>allPackets := allPackets s @
        [\<lparr>packet = pkt, ctx = readCtx rx, sender = SERVER, index = - 1, reveal = None\<rparr>]\<rparr>"
    have on: "onRead pkt (readCtx rx) s = (Inr (), ?t)" by (simp add: onRead_def)
    from cont(2) on s0 have rest: "andThen (runCallbacks pushToSession (callbacks rx))
        (\<lambda>_. throwIf (thrown rx)) ?t = (r, s1)"
      by (simp add: andThen_def)
    have g0: "growth hi [- 1] s ?t" using growth_onRead [of hi s pkt "readCtx rx"] on by simp
    have "growth hi [] ?t (snd (andThen (runCallbacks pushToSession (callbacks rx))
        (\<lambda>_. throwIf (thrown rx)) ?t))"
      by (rule growth_andThen) (simp_all add: growth_runCallbacks [OF assms(1)] growth_throwIf)
    with rest have "growth hi [] ?t s1" by simp
    from growth_trans [OF g0 this] show ?thesis by simp
  qed
  with Inl show ?thesis by blast
next
  case (Inr u)
  with assms(2) have ok: "tls_handleReceivedPacket pushToSession pkt rx s = (Inr (), s1)" by simp
  let ?srv = "\<lparr>packet = pkt, ctx = readCtx rx, sender = SERVER, index = - 1, reveal = None\<rparr>"
  let ?s0 = "s\<lparr>allPackets := allPackets s @ [?srv]\<rparr>"
  from ok have run: "runCallbacks pushToSession (callbacks rx) ?s0 = (Inr (), s1)"
    by (auto simp: tls_handleReceivedPacket_def andThen_Inr throwIf_Inr onRead_def)
  with growth_runCallbacks [OF assms(1), of ?s0 "callbacks rx"]
  obtain news where n: "allPackets s1 = (allPackets s @ [?srv]) @ news" "indicesOf SERVER news = []"
    unfolding growth_def by auto
  from n(2) have nosrv: "\<forall>q\<in>set news. sender q \<noteq> SERVER" by (simp add: indicesOf_empty)
  have ap: "allPackets s1 = allPackets s @ ?srv # news" using n(1) by simp
  have g: "getLastBlock SERVER (allPackets s1) = Some (length (allPackets s))"
    unfolding ap by (rule getLastBlock_tail) (simp_all add: nosrv)
  have "\<exists>s2. setLastIndex SERVER idx s1 = (Inr (), s2) \<and> growth hi [idx] s s2" for idx
  proof -
    from g have "setLastIndex SERVER idx s1 = (Inr (), snd (setLastIndex SERVER idx s1))"
      by (simp add: setLastIndex_def)
    with growth_receive [OF assms(1) ok this] show ?thesis by blast
  qed
  with Inr show ?thesis by simp
qed

lemma pullLoop_any:
  assumes "relayIncreasing hi pushToSession"
    and "pullLoop pushToSession result ending s = (r, s')"
  shows "\<exists>k tl. k \<le> length (streamIndices result) \<and> (tl = [] \<or> tl = [- 1])
           \<and> (r = Inr () \<longrightarrow> k = length (streamIndices result) \<and> tl = [])
           \<and> growth hi (take k (streamIndices result) @ tl) s s'"
  using assms(2)
proof (induction result arbitrary: s)
  case Nil
  then have "s' = s" by (auto simp: throwIf_def skip_def throw_def split: option.splits)
  then show ?case
    by (intro exI [of _ 0] exI [of _ "[]"]) (simp add: streamIndices_def growth_refl)
next
  case (Cons a rest)
  obtain res rx where a: "a = (res, rx)" by (cases a)
  show ?case
  proof (cases "readyMarker res")
    case True
    let ?s1 = "snd (tls_startHandshake pushToSession rx s)"
    have h: "onReady pushToSession rx s = (Inr (), ?s1)" by (simp add: onReady_def)
    from Cons.prems a True have l: "pullLoop pushToSession rest ending ?s1 = (r, s')"
      by (simp add: andThen_def onReady_def)
    from Cons.IH [OF l] obtain k tl where
      k: "k \<le> length (streamIndices rest)" "tl = [] \<or> tl = [- 1]"
        "r = Inr () \<longrightarrow> k = length (streamIndices rest) \<and> tl = []"
        "growth hi (take k (streamIndices rest) @ tl) ?s1 s'"
      by blast
    from growth_trans [OF growth_onReady [OF assms(1) h] k(4)]
    have "growth hi (take k (streamIndices rest) @ tl) s s'" by simp
    with k(1-3) True a show ?thesis
      by (intro exI [of _ k] exI [of _ tl]) (simp add: streamIndices_Cons)
  next
    case False
    with Cons.prems a have run:
      "andThen (tls_handleReceivedPacket pushToSession (the (pull_message res)) rx) (\<lambda>_.
           andThen (setLastIndex SERVER (pull_index res)) (\<lambda>_.
             pullLoop pushToSession rest ending)) s = (r, s')"
      by simp
    from run show ?thesis
    proof (cases rule: andThen_cases)
      case (fail e)
      from receive_any [OF assms(1) fail(1)]
      have "growth hi [] s s' \<or> growth hi [- 1] s s'" by auto
      then show ?thesis
      proof
        assume "growth hi [] s s'"
        with fail(2) show ?thesis by (intro exI [of _ 0] exI [of _ "[]"]) simp
      next
        assume "growth hi [- 1] s s'"
        with fail(2) show ?thesis by (intro exI [of _ 0] exI [of _ "[- 1]"]) simp
      qed
    next
      case (cont x s1)
      from receive_any [OF assms(1) cont(1)] obtain s2 where
        i: "setLastIndex SERVER (pull_index res) s1 = (Inr (), s2)"
        and g: "growth hi [pull_index res] s s2"
        by auto
      from cont(2) i have l: "pullLoop pushToSession rest ending s2 = (r, s')"
        by (simp add: andThen_def)
      from Cons.IH [OF l] obtain k tl where
        k: "k \<le> length (streamIndices rest)" "tl = [] \<or> tl = [- 1]"
          "r = Inr () \<longrightarrow> k = length (streamIndices rest) \<and> tl = []"
          "growth hi (take k (streamIndices rest) @ tl) s2 s'"
        by blast
      from growth_trans [OF g k(4)]
      have "growth hi (take (Suc k) (pull_index res # streamIndices rest) @ tl) s s'" by simp
      with k(1-3) False a show ?thesis
        by (intro exI [of _ "Suc k"] exI [of _ tl]) (simp add: streamIndices_Cons)
    qed
  qed
qed

lemma growth_client_ordered:
  assumes "growth hi srv s s'" and "transcriptOrdered hi s"
  shows "sorted_wrt (<) (indicesOf CLIENT (allPackets s'))"
    and "\<forall>i\<in>set (indicesOf CLIENT (allPackets s')). i \<le> hi (relay s')"
    and "indicesOf SERVER (allPackets s') = indicesOf SERVER (allPackets s) @ srv"
    and "\<exists>news. allPackets s' = allPackets s @ news"
proof -
  from assms(1) obtain news where h: "hi (relay s) \<le> hi (relay s')"
    and n: "allPackets s' = allPackets s @ news" "indicesOf SERVER news = srv"
      "sorted_wrt (<) (indicesOf CLIENT news)"
      "\<forall>i\<in>set (indicesOf CLIENT news). hi (relay s) < i \<and> i \<le> hi (relay s')"
    unfolding growth_def by blast
  from assms(2) have c: "sorted_wrt (<) (indicesOf CLIENT (allPackets s))"
    and b: "\<forall>i\<in>set (indicesOf CLIENT (allPackets s)). i \<le> hi (relay s)"
    by (simp_all add: transcriptOrdered_def)
  show "sorted_wrt (<) (indicesOf CLIENT (allPackets s'))"
    using c b n(3,4) by (fastforce simp: n(1) sorted_wrt_append)
  show "\<forall>i\<in>set (indicesOf CLIENT (allPackets s')). i \<le> hi (relay s')"
    using b n(4) h by (fastforce simp: n(1))
  show "indicesOf SERVER (allPackets s') = indicesOf SERVER (allPackets s) @ srv"
    by (simp add: n(1,2))
  from n(1) show "\<exists>news. allPackets s' = allPackets s @ news" by blast
qed

section \<open>Record indices per sender\<close>

text \<open>
  Claim C9, as amended. The relay assigns the indices; the hypothesis
  \<open>relayIncreasing\<close> says that it assigns them in increasing order to the records
  pushed to it. From a transcript whose indices increase strictly per sender:

  \<^item> a record written through the write callback is appended at the end with the
    index of the push response;

  \<^item> a write, whether it returns or throws, only appends client records (reveal
    decisions apart, which are put on records that are there), and the indices still
    increase strictly per sender;

  \<^item> the pull loop, whether it returns or throws, only appends records, and the
    client's indices still increase strictly. A server record is appended with the
    placeholder index \<open>-1\<close> and gets the index of its stream element when the engine
    has handled the element: the server indices are those before, then the indices
    of the first \<open>k\<close> stream elements in order, then \<open>-1\<close> once if the loop threw
    while the engine handled an element after reading it. When the loop returns,
    \<open>k\<close> is the number of the elements and there is no \<open>-1\<close>; and whenever there is
    no \<open>-1\<close>, the indices increase strictly per sender if the indices of the stream
    do.
\<close>

theorem relay_indices_increase_per_sender:
  fixes s :: "('b, 'r) session"
  assumes "relayIncreasing hi pushToSession" and "transcriptOrdered hi s"
  shows
   "(\<forall>pkt c s'. write_cb pushToSession pkt c s = (Inr (), s') \<longrightarrow>
        (\<exists>idx r'. pushToSession (relay s) (the (sessionId s)) pkt = (Inr idx, r')
           \<and> allPackets s' = allPackets s @
               [\<lparr>packet = pkt, ctx = c, sender = CLIENT, index = idx, reveal = None\<rparr>]))
    \<and> (\<forall>res s'. write_op eng pushToSession filler d sections s = (res, s') \<longrightarrow>
        (\<exists>news. unrevealed (allPackets s') = unrevealed (allPackets s) @ news
            \<and> (\<forall>p\<in>set news. sender p = CLIENT))
        \<and> transcriptOrdered hi s')
    \<and> (\<forall>result ending res s'.
          pullLoop pushToSession result ending s = (res, s') \<longrightarrow>
        (\<exists>news. allPackets s' = allPackets s @ news)
        \<and> sorted_wrt (<) (indicesOf CLIENT (allPackets s'))
        \<and> (\<exists>k tl. k \<le> length (streamIndices result) \<and> (tl = [] \<or> tl = [- 1])
              \<and> (res = Inr () \<longrightarrow> k = length (streamIndices result) \<and> tl = [])
              \<and> indicesOf SERVER (allPackets s') =
                  indicesOf SERVER (allPackets s) @ take k (streamIndices result) @ tl
              \<and> (tl = [] \<and> sorted_wrt (<) (indicesOf SERVER (allPackets s) @ streamIndices result)
                   \<longrightarrow> transcriptOrdered hi s')))"
proof (intro conjI allI impI)
  fix pkt c s'
  assume "write_cb pushToSession pkt c s = (Inr (), s')"
  then show "\<exists>idx r'. pushToSession (relay s) (the (sessionId s)) pkt = (Inr idx, r')
           \<and> allPackets s' = allPackets s @
               [\<lparr>packet = pkt, ctx = c, sender = CLIENT, index = idx, reveal = None\<rparr>]"
    by (auto simp: write_cb_def split: if_splits prod.splits sum.splits)
next
  fix res s'
  assume w: "write_op eng pushToSession filler d sections s = (res, s')"
  with clientGrowth_write_op [OF assms(1), of s eng filler d sections]
  have g: "clientGrowth hi s s'" by simp
  from clientGrowth_ordered [OF g assms(2)] show "transcriptOrdered hi s'" .
  from g show "\<exists>news. unrevealed (allPackets s') = unrevealed (allPackets s) @ news
            \<and> (\<forall>p\<in>set news. sender p = CLIENT)"
    unfolding clientGrowth_def by blast
next
  fix result :: "(PullFromSessionResponse \<times> 'b EngineReaction) list" and ending res s'
  assume a: "pullLoop pushToSession result ending s = (res, s')"
  from pullLoop_any [OF assms(1) a] obtain k tl where
    k: "k \<le> length (streamIndices result)" "tl = [] \<or> tl = [- 1]"
      "res = Inr () \<longrightarrow> k = length (streamIndices result) \<and> tl = []"
    and g: "growth hi (take k (streamIndices result) @ tl) s s'"
    by blast
  note go = growth_client_ordered [OF g assms(2)]
  from go(4) show "\<exists>news. allPackets s' = allPackets s @ news" .
  from go(1) show "sorted_wrt (<) (indicesOf CLIENT (allPackets s'))" .
  have "transcriptOrdered hi s'"
    if "tl = []" and sv: "sorted_wrt (<) (indicesOf SERVER (allPackets s) @ streamIndices result)"
  proof -
    from sv have "sorted_wrt (<) (indicesOf SERVER (allPackets s) @ take k (streamIndices result))"
      by (auto simp: sorted_wrt_append sorted_wrt_take dest: in_set_takeD)
    with growth_ordered(1) [OF g assms(2)] that(1) show ?thesis by simp
  qed
  with k go(3) show "\<exists>k tl. k \<le> length (streamIndices result) \<and> (tl = [] \<or> tl = [- 1])
              \<and> (res = Inr () \<longrightarrow> k = length (streamIndices result) \<and> tl = [])
              \<and> indicesOf SERVER (allPackets s') =
                  indicesOf SERVER (allPackets s) @ take k (streamIndices result) @ tl
              \<and> (tl = [] \<and> sorted_wrt (<) (indicesOf SERVER (allPackets s) @ streamIndices result)
                   \<longrightarrow> transcriptOrdered hi s')"
    by blast
qed

lemma demo_pull_state:
  "pullLoop countingRelay demoStream None (demoSession :: (char, nat) session) =
     (Inr (), snd (pullLoop countingRelay demoStream None (demoSession :: (char, nat) session)))"
  using demo_pull_run by (metis prod.collapse)

theorem relay_indices_witness:
  "transcriptOrdered counterBound
     (snd (pullLoop countingRelay demoStream None (demoSession :: (char, nat) session)))
   \<and> indicesOf SERVER
       (allPackets (snd (pullLoop countingRelay demoStream None (demoSession :: (char, nat) session))))
       = [1, 2]
   \<and> indicesOf CLIENT
       (allPackets (snd (pullLoop countingRelay demoStream None (demoSession :: (char, nat) session))))
       = [0, 1]
   \<and> transcriptOrdered counterBound
       (snd (write_op tls13Engine countingRelay (CHR ''*'') ''GET /'' [] demoSession))"
proof -
  let ?s' = "snd (pullLoop countingRelay demoStream None (demoSession :: (char, nat) session))"
  let ?w = "write_op tls13Engine countingRelay (CHR ''*'') ''GET /'' [] (demoSession :: (char, nat) session)"
  have sv: "sorted_wrt (<) (indicesOf SERVER (allPackets (demoSession :: (char, nat) session))
        @ streamIndices demoStream)"
    unfolding demo_pull_indices by simp
  have w: "?w = (fst ?w, snd ?w)" by simp
  note t = relay_indices_increase_per_sender [OF countingRelay_increasing demoSession_ordered,
      of tls13Engine "CHR ''*''" "''GET /''" "[]"]
  from t have "\<forall>res s'. ?w = (res, s') \<longrightarrow> transcriptOrdered counterBound s'" by blast
  with w have tw: "transcriptOrdered counterBound (snd ?w)" by blast
  from t have "\<forall>result ending res s'.
          pullLoop countingRelay result ending (demoSession :: (char, nat) session) = (res, s') \<longrightarrow>
          (\<exists>tl. (res = Inr () \<longrightarrow> tl = [])
             \<and> (tl = [] \<and> sorted_wrt (<) (indicesOf SERVER (allPackets (demoSession :: (char, nat) session))
                   @ streamIndices result)
                \<longrightarrow> transcriptOrdered counterBound s'))"
    by blast
  with demo_pull_state sv have tp: "transcriptOrdered counterBound ?s'" by blast
  have "indicesOf SERVER (allPackets ?s') = [1, 2]" by code_simp
  moreover have "indicesOf CLIENT (allPackets ?s') = [0, 1]" by code_simp
  ultimately show ?thesis using tp tw by simp
qed

text \<open>
  Claim C9 as stated fails when the engine throws while it handles a record it has
  read: the server record was appended with the placeholder and the loop is left
  before the index of the stream element is put on it. The transcript had a server
  record with index 5; the stream delivers a record with index 7; the server indices
  are then 5 and \<open>-1\<close>, which is not from the pull stream and not above 5.
\<close>

theorem thrown_record_keeps_placeholder_index:
  "indicesOf SERVER (allPackets serverSession) = [5]
   \<and> streamIndices throwingStream = [7]
   \<and> pullLoop countingRelay throwingStream None serverSession =
       (Inl (Error ''received fatal alert''),
        serverSession\<lparr>allPackets := allPackets serverSession @
          [\<lparr>packet = \<lparr>header = [23, 3, 3], content = [9]\<rparr>, ctx = ciphertext_ctx ''alert'' ''ALERT'',
            sender = SERVER, index = - 1, reveal = None\<rparr>]\<rparr>)
   \<and> indicesOf SERVER (allPackets (snd (pullLoop countingRelay throwingStream None serverSession)))
       = [5, - 1]
   \<and> indicesOf SERVER (allPackets (snd (listenToDataFromServer countingRelay throwingStream None
         serverSession))) = [5, - 1]"
  by (simp add: throwingStream_def serverSession_def demoSession_def streamIndices_def
      readyMarker_def indicesOf_def tls_handleReceivedPacket_def onRead_def throwIf_def throw_def
      skip_def andThen_def listenToDataFromServer_def tls_end_def)

end
